theory Spec2Isabelle
  imports Main
begin

section \<open>Data model\<close>

text \<open>
  The session lifecycle of \<^verbatim>\<open>src/services/AuthService.js\<close>, over the tables of the
  Prisma migration (\<^verbatim>\<open>User\<close>, \<^verbatim>\<open>Device\<close>, \<^verbatim>\<open>Session\<close>).

  A \<open>uuid\<close> is a value of \<^verbatim>\<open>randomUUID()\<close>: an opaque identifier that is never
  the empty string, so the JavaScript test \<^verbatim>\<open>if (session.replacedBy)\<close> is the test
  for \<^verbatim>\<open>null\<close>. The clock is \<^verbatim>\<open>Date.now()\<close> in milliseconds; one call of a service
  method reads one clock value.
\<close>

type_synonym uuid = nat
type_synonym clock = nat

datatype error =
    ValidationError string
  | UnauthorizedError string
  | ConflictError string
  | PrismaError

text \<open>
  The three claim sets that \<^verbatim>\<open>jwt.sign\<close> is called with in the repository:
  \<^verbatim>\<open>{sub, type: 'access'}\<close>, \<^verbatim>\<open>{sub, type: 'refresh', jti, did}\<close> and
  \<^verbatim>\<open>{sub, type: 'temp'}\<close>. A token is either one of these, signed with
  \<^verbatim>\<open>JWT_SECRET\<close> and carrying its \<^verbatim>\<open>exp\<close> (in seconds), or any other value
  (malformed, or signed with another key), on which \<^verbatim>\<open>jwt.verify\<close> throws.
\<close>

datatype payload =
    Access string
  | Refresh string uuid string
  | Temp string

datatype token = Signed payload nat | Invalid string

record tokens =
  accessToken :: token
  refreshToken :: token

datatype jsval =
    JNull
  | JBool bool
  | JNum int
  | JStr string
  | JArr "jsval list"
  | JObj "(string \<times> jsval) list"

type_synonym obj = "(string \<times> jsval) list"

text \<open>
  A row of \<^verbatim>\<open>User\<close>: the columns the service reads or writes are fields; the other
  columns (bio, tags, photoUrl, ...) are kept as the properties \<open>rest\<close>.
\<close>

record user =
  u_id :: string
  email :: string
  passwordHash :: string
  displayName :: string
  age :: int
  twoFAEnabled :: bool
  totpSecret :: "string option"
  rest :: obj

record device =
  d_userId :: string
  d_deviceId :: string
  platform :: string
  userAgent :: string
  lastSeenAt :: clock

text \<open>
  A row of \<^verbatim>\<open>Session\<close>. The primary key \<^verbatim>\<open>id\<close> and \<^verbatim>\<open>createdAt\<close> are filled in by
  the data layer and never read by the service; they are left out.
\<close>

record session =
  userId :: string
  deviceId :: string
  refreshJti :: uuid
  revoked :: bool
  replacedBy :: "uuid option"
  expiresAt :: clock

text \<open>
  The tables. \<^verbatim>\<open>Subscription\<close> has at most one row per user (unique index on
  \<^verbatim>\<open>userId\<close>); its rows are kept as objects under the user id.
\<close>

record db =
  users :: "user list"
  devices :: "device list"
  subscriptions :: "(string \<times> obj) list"
  sessions :: "session list"

section \<open>Tokens\<close>

definition ACCESS_TTL :: nat where
  "ACCESS_TTL = 15 * 60"

definition REFRESH_TTL_SECONDS :: nat where
  "REFRESH_TTL_SECONDS = 30 * 24 * 60 * 60"

text \<open>\<^verbatim>\<open>jwt.sign(claims, JWT_SECRET, {expiresIn})\<close>, with \<open>expiresIn\<close> in seconds.\<close>

definition jwt_sign :: "clock \<Rightarrow> payload \<Rightarrow> nat \<Rightarrow> token" where
  "jwt_sign now p expiresIn = Signed p (now div 1000 + expiresIn)"

text \<open>
  \<^verbatim>\<open>jwt.verify(token, JWT_SECRET)\<close>: \<open>None\<close> where it throws (bad signature, malformed,
  or the clock has reached \<^verbatim>\<open>exp\<close>).
\<close>

fun jwt_verify :: "clock \<Rightarrow> token \<Rightarrow> payload option" where
  "jwt_verify now (Signed p e) = (if e \<le> now div 1000 then None else Some p)"
| "jwt_verify now (Invalid _) = None"

text \<open>\<^verbatim>\<open>payload.jti\<close>: undefined on access and temp tokens.\<close>

fun payload_jti :: "payload \<Rightarrow> uuid option" where
  "payload_jti (Refresh _ j _) = Some j"
| "payload_jti _ = None"

text \<open>\<^verbatim>\<open>jwt.decode(token).jti\<close>: reads the claims without verifying.\<close>

fun jwt_decode_jti :: "token \<Rightarrow> uuid option" where
  "jwt_decode_jti (Signed p _) = payload_jti p"
| "jwt_decode_jti (Invalid _) = None"

section \<open>The Session table\<close>

text \<open>\<^verbatim>\<open>prisma.session.findUnique({ where: { refreshJti } })\<close>.\<close>

definition session_findUnique :: "db \<Rightarrow> uuid \<Rightarrow> session option" where
  "session_findUnique d j = find (\<lambda>s. refreshJti s = j) (sessions d)"

fun update_row :: "uuid \<Rightarrow> (session \<Rightarrow> session) \<Rightarrow> session list \<Rightarrow> session list" where
  "update_row j f [] = []"
| "update_row j f (s # ss) = (if refreshJti s = j then f s # ss else s # update_row j f ss)"

text \<open>
  \<^verbatim>\<open>prisma.session.update({ where: { refreshJti }, data })\<close>: throws when no row has
  the key.
\<close>

definition session_update :: "db \<Rightarrow> uuid \<Rightarrow> (session \<Rightarrow> session) \<Rightarrow> error + db" where
  "session_update d j f =
     (case session_findUnique d j of
        None \<Rightarrow> Inl PrismaError
      | Some _ \<Rightarrow> Inr (d\<lparr>sessions := update_row j f (sessions d)\<rparr>))"

text \<open>\<^verbatim>\<open>prisma.session.updateMany({ where, data })\<close>: returns the count of rows matched.\<close>

definition session_updateMany ::
  "db \<Rightarrow> (session \<Rightarrow> bool) \<Rightarrow> (session \<Rightarrow> session) \<Rightarrow> nat \<times> db" where
  "session_updateMany d P f =
     (length (filter P (sessions d)),
      d\<lparr>sessions := map (\<lambda>s. if P s then f s else s) (sessions d)\<rparr>)"

text \<open>
  \<^verbatim>\<open>prisma.session.create({ data })\<close>: throws on the foreign key
  \<^verbatim>\<open>Session_userId_fkey\<close> and on the unique index \<^verbatim>\<open>Session_refreshJti_key\<close>; the
  columns not given take their defaults (\<^verbatim>\<open>revoked = false\<close>, \<^verbatim>\<open>replacedBy = NULL\<close>).
\<close>

definition session_create ::
  "db \<Rightarrow> string \<Rightarrow> string \<Rightarrow> uuid \<Rightarrow> clock \<Rightarrow> error + db" where
  "session_create d uid did j exp =
     (if uid \<notin> set (map u_id (users d)) then Inl PrismaError
      else if j \<in> set (map refreshJti (sessions d)) then Inl PrismaError
      else Inr (d\<lparr>sessions := sessions d @
             [\<lparr>userId = uid, deviceId = did, refreshJti = j, revoked = False,
               replacedBy = None, expiresAt = exp\<rparr>]\<rparr>))"

section \<open>Issuing, rotating and revoking\<close>

text \<open>\<^verbatim>\<open>issueTokens(userId, deviceId)\<close>; \<open>j\<close> is the value of \<^verbatim>\<open>randomUUID()\<close>.\<close>

definition issueTokens ::
  "clock \<Rightarrow> uuid \<Rightarrow> string \<Rightarrow> string \<Rightarrow> db \<Rightarrow> (error + tokens) \<times> db" where
  "issueTokens now j uid did d =
     (let access = jwt_sign now (Access uid) ACCESS_TTL;
          refresh = jwt_sign now (Refresh uid j did) REFRESH_TTL_SECONDS;
          exp = now + REFRESH_TTL_SECONDS * 1000
      in case session_create d uid did j exp of
           Inl e \<Rightarrow> (Inl e, d)
         | Inr d' \<Rightarrow> (Inr \<lparr>accessToken = access, refreshToken = refresh\<rparr>, d'))"

text \<open>
  \<^verbatim>\<open>revokeFamily(jti)\<close>: the recursion follows \<^verbatim>\<open>replacedBy\<close> and has no bound, so the
  result is \<open>None\<close> where it does not return.
\<close>

partial_function (option) revokeFamily :: "db \<Rightarrow> uuid \<Rightarrow> ((error + unit) \<times> db) option" where
  "revokeFamily d j =
     (case session_findUnique d j of
        None \<Rightarrow> Some (Inr (), d)
      | Some session \<Rightarrow>
          (case session_update d j (\<lambda>s. s\<lparr>revoked := True\<rparr>) of
             Inl e \<Rightarrow> Some (Inl e, d)
           | Inr d1 \<Rightarrow>
               (case replacedBy session of
                  None \<Rightarrow> Some (Inr (), d1)
                | Some n \<Rightarrow> revokeFamily d1 n)))"

text \<open>
  \<^verbatim>\<open>rotateRefresh(refreshToken)\<close> in two parts, cut after the read of the session
  (line 237): \<open>rotateRefresh_lookup\<close> verifies the token and reads the row,
  \<open>rotateRefresh_commit\<close> acts on the row that was read. A call that runs alone is
  their composition \<open>rotateRefresh\<close>; two calls in flight may each finish the first part
  before either starts the second. \<open>None\<close> is a missing (falsy) argument.
\<close>

definition rotateRefresh_lookup ::
  "clock \<Rightarrow> token option \<Rightarrow> db \<Rightarrow> error + (string \<times> uuid \<times> string \<times> session)" where
  "rotateRefresh_lookup now refreshTok d =
     (case refreshTok of
        None \<Rightarrow> Inl (ValidationError ''Refresh token is required'')
      | Some t \<Rightarrow>
          (case jwt_verify now t of
             None \<Rightarrow> Inl (UnauthorizedError ''Invalid or expired refresh token'')
           | Some (Refresh sub j did) \<Rightarrow>
               (case session_findUnique d j of
                  None \<Rightarrow> Inl (UnauthorizedError ''Session not found'')
                | Some session \<Rightarrow> Inr (sub, j, did, session))
           | Some _ \<Rightarrow> Inl (UnauthorizedError ''Invalid token type'')))"

text \<open>The update of lines 249-255 that retires the old row.\<close>

definition rotateRefresh_update :: "db \<Rightarrow> uuid \<Rightarrow> tokens \<Rightarrow> error + db" where
  "rotateRefresh_update d j newTokens =
     session_update d j
       (\<lambda>s. s\<lparr>revoked := True, replacedBy := jwt_decode_jti (refreshToken newTokens)\<rparr>)"

definition rotateRefresh_commit ::
  "clock \<Rightarrow> uuid \<Rightarrow> string \<times> uuid \<times> string \<times> session \<Rightarrow> db
     \<Rightarrow> ((error + tokens) \<times> db) option" where
  "rotateRefresh_commit now newJti r d =
     (case r of (sub, j, did, session) \<Rightarrow>
        if revoked session then
          (case revokeFamily d j of
             None \<Rightarrow> None
           | Some (Inl e, d') \<Rightarrow> Some (Inl e, d')
           | Some (Inr _, d') \<Rightarrow> Some (Inl (UnauthorizedError ''Token has been revoked''), d'))
        else
          (case issueTokens now newJti sub did d of
             (Inl e, d') \<Rightarrow> Some (Inl e, d')
           | (Inr newTokens, d1) \<Rightarrow>
               (case rotateRefresh_update d1 j newTokens of
                  Inl e \<Rightarrow> Some (Inl e, d1)
                | Inr d2 \<Rightarrow> Some (Inr newTokens, d2))))"

definition rotateRefresh ::
  "clock \<Rightarrow> uuid \<Rightarrow> token option \<Rightarrow> db \<Rightarrow> ((error + tokens) \<times> db) option" where
  "rotateRefresh now newJti refreshTok d =
     (case rotateRefresh_lookup now refreshTok d of
        Inl e \<Rightarrow> Some (Inl e, d)
      | Inr r \<Rightarrow> rotateRefresh_commit now newJti r d)"

text \<open>
  \<^verbatim>\<open>logout(refreshToken)\<close>: every throw inside the \<^verbatim>\<open>try\<close> (a token that does not
  verify, a payload without \<^verbatim>\<open>jti\<close>, no row to update) is caught. The result is the
  \<^verbatim>\<open>success\<close> field.
\<close>

definition logout :: "clock \<Rightarrow> token option \<Rightarrow> db \<Rightarrow> (error + bool) \<times> db" where
  "logout now refreshTok d =
     (case refreshTok of
        None \<Rightarrow> (Inr True, d)
      | Some t \<Rightarrow>
          (case jwt_verify now t of
             None \<Rightarrow> (Inr True, d)
           | Some p \<Rightarrow>
               (case payload_jti p of
                  None \<Rightarrow> (Inr True, d)
                | Some j \<Rightarrow>
                    (case session_update d j (\<lambda>s. s\<lparr>revoked := True\<rparr>) of
                       Inl e \<Rightarrow> (Inr True, d)
                     | Inr d' \<Rightarrow> (Inr True, d')))))"

record logoutAll_result =
  success :: bool
  revokedSessions :: nat

text \<open>\<^verbatim>\<open>logoutAllDevices(userId)\<close>.\<close>

definition logoutAllDevices :: "string \<Rightarrow> db \<Rightarrow> logoutAll_result \<times> db" where
  "logoutAllDevices uid d =
     (case session_updateMany d (\<lambda>s. userId s = uid \<and> revoked s = False)
             (\<lambda>s. s\<lparr>revoked := True\<rparr>) of
        (count, d') \<Rightarrow> (\<lparr>success = True, revokedSessions = count\<rparr>, d'))"

section \<open>Registration, login and the second factor\<close>

text \<open>
  The collaborators are parameters: \<open>hash\<close> is the outcome of \<^verbatim>\<open>bcrypt.hash(password, 12)\<close>,
  \<open>compare\<close> is \<^verbatim>\<open>bcrypt.compare\<close>, \<open>check\<close> is \<^verbatim>\<open>otplib.authenticator.check\<close> at the time
  of the call, \<open>newId\<close> is the id the data layer gives a new user. The logger and the
  registration counter do not touch the tables and are left out. An argument that is
  \<^verbatim>\<open>undefined\<close> is the empty string, which the tests \<^verbatim>\<open>!email\<close>, \<^verbatim>\<open>!password\<close>, \<^verbatim>\<open>!code\<close>
  treat alike. \<^verbatim>\<open>String.prototype.toLowerCase\<close> is a built-in of the language, not code of
  the service: \<open>register\<close> and \<open>login\<close> take it as the parameter \<open>toLowerCase\<close>, and what
  is proved of them holds for whatever function it is.
\<close>

text \<open>
  The truthiness of a nullable text column: neither \<^verbatim>\<open>null\<close> nor empty.
\<close>

definition truthy :: "string option \<Rightarrow> bool" where
  "truthy v = (case v of None \<Rightarrow> False | Some s \<Rightarrow> s \<noteq> [])"

text \<open>
  \<^verbatim>\<open>prisma.user.findUnique\<close> by email and by id, and \<^verbatim>\<open>prisma.user.create\<close>, which throws
  on the primary key, on the unique index \<^verbatim>\<open>User_email_key\<close>, and on an \<^verbatim>\<open>age\<close> that does
  not fit the 32-bit \<^verbatim>\<open>INTEGER\<close> column.
\<close>

definition user_findUnique_email :: "db \<Rightarrow> string \<Rightarrow> user option" where
  "user_findUnique_email d e = find (\<lambda>u. email u = e) (users d)"

definition user_findUnique_id :: "db \<Rightarrow> string \<Rightarrow> user option" where
  "user_findUnique_id d i = find (\<lambda>u. u_id u = i) (users d)"

definition user_create :: "db \<Rightarrow> user \<Rightarrow> error + db" where
  "user_create d u =
     (if age u < - 2147483648 \<or> 2147483647 < age u then Inl PrismaError
      else if u_id u \<in> set (map u_id (users d)) \<or> email u \<in> set (map email (users d))
      then Inl PrismaError
      else Inr (d\<lparr>users := users d @ [u]\<rparr>))"

text \<open>
  \<^verbatim>\<open>prisma.device.upsert\<close> on the unique pair (userId, deviceId).
\<close>

definition device_upsert :: "db \<Rightarrow> string \<Rightarrow> string \<Rightarrow> string \<Rightarrow> string \<Rightarrow> clock \<Rightarrow> db" where
  "device_upsert d uid did plat ua now =
     (if \<exists>x \<in> set (devices d). d_userId x = uid \<and> d_deviceId x = did
      then d\<lparr>devices := map (\<lambda>x. if d_userId x = uid \<and> d_deviceId x = did
                 then x\<lparr>lastSeenAt := now, userAgent := ua, platform := plat\<rparr> else x) (devices d)\<rparr>
      else d\<lparr>devices := devices d @
             [\<lparr>d_userId = uid, d_deviceId = did, platform = plat, userAgent = ua,
               lastSeenAt = now\<rparr>]\<rparr>)"

text \<open>
  The JavaScript object of a user row, and \<^verbatim>\<open>sanitizeUser\<close>, which keeps every property
  but \<^verbatim>\<open>passwordHash\<close> and \<^verbatim>\<open>totpSecret\<close>.
\<close>

definition user_object :: "user \<Rightarrow> obj" where
  "user_object u =
     [(''id'', JStr (u_id u)), (''email'', JStr (email u)),
      (''passwordHash'', JStr (passwordHash u)), (''displayName'', JStr (displayName u)),
      (''age'', JNum (age u)), (''twoFAEnabled'', JBool (twoFAEnabled u)),
      (''totpSecret'', (case totpSecret u of None \<Rightarrow> JNull | Some s \<Rightarrow> JStr s))] @ rest u"

definition sanitizeUser :: "obj \<Rightarrow> obj" where
  "sanitizeUser user = filter (\<lambda>(k, v). k \<noteq> ''passwordHash'' \<and> k \<noteq> ''totpSecret'') user"

text \<open>
  \<^verbatim>\<open>signTemp(userId)\<close>: a temp token valid for five minutes.
\<close>

definition signTemp :: "clock \<Rightarrow> string \<Rightarrow> token" where
  "signTemp now uid = jwt_sign now (Temp uid) (5 * 60)"

text \<open>
  The columns a new user row takes from the schema defaults.
\<close>

definition default_columns :: "clock \<Rightarrow> obj" where
  "default_columns now =
     [(''bio'', JStr ''''), (''tags'', JArr []), (''photoUrl'', JStr ''''), (''lat'', JNull),
      (''lng'', JNull), (''stripeCustomerId'', JNull), (''reputation'', JNum 0),
      (''isVerified'', JBool False), (''createdAt'', JNum (int now)),
      (''updatedAt'', JNum (int now))]"

text \<open>
  \<^verbatim>\<open>register(email, password, displayName, age)\<close>; \<open>years\<close> is the age after its default
  of 18, and the length of the password is counted in characters.
\<close>

definition register ::
  "(string \<Rightarrow> string) \<Rightarrow> (string \<Rightarrow> string) \<Rightarrow> clock \<Rightarrow> string \<Rightarrow> string \<Rightarrow> string
     \<Rightarrow> string \<Rightarrow> int \<Rightarrow> db \<Rightarrow> (error + obj) \<times> db" where
  "register toLowerCase hash now newId mail password name years d =
     (if mail = [] \<or> password = [] \<or> name = [] then
        (Inl (ValidationError ''Email, password, and display name are required''), d)
      else if length password < 8 then
        (Inl (ValidationError ''Password must be at least 8 characters''), d)
      else if years < 18 then
        (Inl (ValidationError ''You must be 18 or older to register''), d)
      else
        (case user_findUnique_email d (toLowerCase mail) of
           Some existing \<Rightarrow> (Inl (ConflictError ''Email already registered''), d)
         | None \<Rightarrow>
             (let user = \<lparr>u_id = newId, email = toLowerCase mail, passwordHash = hash password,
                          displayName = name, age = years, twoFAEnabled = False,
                          totpSecret = None, rest = default_columns now\<rparr>
              in case user_create d user of
                   Inl e \<Rightarrow> (Inl e, d)
                 | Inr d' \<Rightarrow> (Inr (sanitizeUser (user_object user)), d'))))"

text \<open>
  \<^verbatim>\<open>login\<close> returns either \<^verbatim>\<open>{require2FA: true, tempToken, message}\<close> or
  \<^verbatim>\<open>{user, accessToken, refreshToken}\<close>.
\<close>

datatype login_result =
    Require2FA token string
  | LoggedIn obj tokens

definition login ::
  "(string \<Rightarrow> string) \<Rightarrow> (string \<Rightarrow> string \<Rightarrow> bool) \<Rightarrow> clock \<Rightarrow> uuid \<Rightarrow> string \<Rightarrow> string
     \<Rightarrow> string \<Rightarrow> string \<Rightarrow> string \<Rightarrow> db \<Rightarrow> (error + login_result) \<times> db" where
  "login toLowerCase compare now j mail password did plat ua d =
     (if mail = [] \<or> password = [] then
        (Inl (ValidationError ''Email and password are required''), d)
      else
        (case user_findUnique_email d (toLowerCase mail) of
           None \<Rightarrow> (Inl (UnauthorizedError ''Invalid email or password''), d)
         | Some user \<Rightarrow>
             if \<not> compare password (passwordHash user) then
               (Inl (UnauthorizedError ''Invalid email or password''), d)
             else
               (let d1 = device_upsert d (u_id user) did plat ua now in
                if twoFAEnabled user \<and> truthy (totpSecret user) then
                  (Inr (Require2FA (signTemp now (u_id user)) ''Please provide 2FA code''), d1)
                else
                  (case issueTokens now j (u_id user) did d1 of
                     (Inl e, d2) \<Rightarrow> (Inl e, d2)
                   | (Inr toks, d2) \<Rightarrow>
                       (Inr (LoggedIn (sanitizeUser (user_object user)) toks), d2)))))"

text \<open>
  \<^verbatim>\<open>verify2FA(tempToken, code, deviceId)\<close>. The test
  \<^verbatim>\<open>!user || !user.twoFAEnabled || !user.totpSecret\<close> is spread over the three cases.
\<close>

definition verify2FA ::
  "(string \<Rightarrow> string \<Rightarrow> bool) \<Rightarrow> clock \<Rightarrow> uuid \<Rightarrow> token option \<Rightarrow> string \<Rightarrow> string \<Rightarrow> db
     \<Rightarrow> (error + obj \<times> tokens) \<times> db" where
  "verify2FA check now j tempToken code did d =
     (case tempToken of
        None \<Rightarrow> (Inl (ValidationError ''Temp token and 2FA code are required''), d)
      | Some t \<Rightarrow>
          if code = [] then
            (Inl (ValidationError ''Temp token and 2FA code are required''), d)
          else
            (case jwt_verify now t of
               None \<Rightarrow> (Inl (UnauthorizedError ''Invalid or expired temp token''), d)
             | Some (Temp sub) \<Rightarrow>
                 (case user_findUnique_id d sub of
                    None \<Rightarrow> (Inl (UnauthorizedError ''2FA not enabled for this user''), d)
                  | Some user \<Rightarrow>
                      (case totpSecret user of
                         None \<Rightarrow> (Inl (UnauthorizedError ''2FA not enabled for this user''), d)
                       | Some secret \<Rightarrow>
                           if \<not> twoFAEnabled user \<or> secret = [] then
                             (Inl (UnauthorizedError ''2FA not enabled for this user''), d)
                           else if \<not> check code secret then
                             (Inl (UnauthorizedError ''Invalid 2FA code''), d)
                           else
                             (case issueTokens now j (u_id user) did d of
                                (Inl e, d') \<Rightarrow> (Inl e, d')
                              | (Inr toks, d') \<Rightarrow>
                                  (Inr (sanitizeUser (user_object user), toks), d'))))
             | Some _ \<Rightarrow> (Inl (UnauthorizedError ''Invalid token type''), d)))"

text \<open>
  \<^verbatim>\<open>getUserById(userId)\<close>, with the \<^verbatim>\<open>subscription\<close> relation included.
\<close>

definition getUserById :: "string \<Rightarrow> db \<Rightarrow> error + obj" where
  "getUserById uid d =
     (case user_findUnique_id d uid of
        None \<Rightarrow> Inl (UnauthorizedError ''User not found'')
      | Some user \<Rightarrow>
          Inr (sanitizeUser (user_object user @
                 [(''subscription'',
                   (case map_of (subscriptions d) uid of None \<Rightarrow> JNull | Some row \<Rightarrow> JObj row))])))"

section \<open>Well-formed session tables\<close>

text \<open>
  Rows are kept in the order they were created. \<open>forward\<close> says that every
  \<^verbatim>\<open>replacedBy\<close> points to a row created later (or to no row): no row points to itself
  or to an earlier row. \<^verbatim>\<open>rotateRefresh\<close> creates the new row before it links the old one
  to it, so every table built by the service is \<open>forward\<close> (lemmas \<open>run_forward\<close> and
  \<open>reachable_forward\<close>), and on such a table the recursion of \<^verbatim>\<open>revokeFamily\<close> ends
  (lemma \<open>revokeFamily_total\<close>).
\<close>

fun forward :: "session list \<Rightarrow> bool" where
  "forward [] = True"
| "forward (s # ss) =
     (replacedBy s \<noteq> Some (refreshJti s) \<and>
      (\<forall>t \<in> set ss. replacedBy t \<noteq> Some (refreshJti s)) \<and> forward ss)"

text \<open>
  The number of rows from the row of \<open>j\<close> to the end of the table: the measure that
  decreases along \<^verbatim>\<open>replacedBy\<close> in a \<open>forward\<close> table.
\<close>

fun rank :: "uuid \<Rightarrow> session list \<Rightarrow> nat" where
  "rank j [] = 0"
| "rank j (s # ss) = (if refreshJti s = j then Suc (length ss) else rank j ss)"

text \<open>
  \<open>revoked_only s t\<close>: row \<open>t\<close> is row \<open>s\<close> except that \<^verbatim>\<open>revoked\<close> may have gone from
  false to true.
\<close>

definition revoked_only :: "session \<Rightarrow> session \<Rightarrow> bool" where
  "revoked_only s t \<longleftrightarrow> t = s\<lparr>revoked := revoked t\<rparr> \<and> (revoked s \<longrightarrow> revoked t)"

text \<open>
  \<open>reach ss j k\<close>: the row of \<open>k\<close> is reached from the row of \<open>j\<close> by following
  \<^verbatim>\<open>replacedBy\<close> links forward (zero or more times).
\<close>

inductive reach :: "session list \<Rightarrow> uuid \<Rightarrow> uuid \<Rightarrow> bool" for ss where
  reach_here: "find (\<lambda>s. refreshJti s = j) ss = Some s \<Longrightarrow> reach ss j j"
| reach_next: "find (\<lambda>s. refreshJti s = j) ss = Some s \<Longrightarrow> replacedBy s = Some n
     \<Longrightarrow> reach ss n k \<Longrightarrow> reach ss j k"

text \<open>
  The row that \<open>issueTokens\<close> creates.
\<close>

definition fresh_session :: "clock \<Rightarrow> uuid \<Rightarrow> string \<Rightarrow> string \<Rightarrow> session" where
  "fresh_session now j uid did =
     \<lparr>userId = uid, deviceId = did, refreshJti = j, revoked = False, replacedBy = None,
      expiresAt = now + REFRESH_TTL_SECONDS * 1000\<rparr>"

section \<open>Sequences of operations\<close>

text \<open>
  The operations on the Session table, with the arguments of each call, and the states
  reached by running them one after the other. \<open>step\<close> is \<open>None\<close> when a call does not
  return.
\<close>

datatype op =
    IssueTokens clock uuid string string
  | RotateRefresh clock uuid "token option"
  | Logout clock "token option"
  | LogoutAllDevices string
  | RevokeFamily uuid

fun is_rotate :: "op \<Rightarrow> bool" where
  "is_rotate (RotateRefresh _ _ _) = True"
| "is_rotate _ = False"

fun step :: "op \<Rightarrow> db \<Rightarrow> db option" where
  "step (IssueTokens now j uid did) d = Some (snd (issueTokens now j uid did d))"
| "step (RotateRefresh now j tok) d = map_option snd (rotateRefresh now j tok d)"
| "step (Logout now tok) d = Some (snd (logout now tok d))"
| "step (LogoutAllDevices uid) d = Some (snd (logoutAllDevices uid d))"
| "step (RevokeFamily j) d = map_option snd (revokeFamily d j)"

fun run :: "op list \<Rightarrow> db \<Rightarrow> db option" where
  "run [] d = Some d"
| "run (x # xs) d = (case step x d of None \<Rightarrow> None | Some d' \<Rightarrow> run xs d')"

text \<open>
  \<open>unlinked\<close>: a row that is not revoked has no successor.
\<close>

definition unlinked :: "session list \<Rightarrow> bool" where
  "unlinked ss \<longleftrightarrow> (\<forall>s \<in> set ss. \<not> revoked s \<longrightarrow> replacedBy s = None)"

text \<open>
  \<open>node_step rot s t\<close>: what one operation may do to a row: only \<^verbatim>\<open>revoked\<close> and
  \<^verbatim>\<open>replacedBy\<close> change, \<^verbatim>\<open>revoked\<close> is never reset, and \<^verbatim>\<open>replacedBy\<close> changes only in a
  rotation (\<open>rot\<close>) that revokes a row that was not revoked.
\<close>

definition node_step :: "bool \<Rightarrow> session \<Rightarrow> session \<Rightarrow> bool" where
  "node_step rot s t \<longleftrightarrow>
     t = s\<lparr>revoked := revoked t, replacedBy := replacedBy t\<rparr> \<and>
     (revoked s \<longrightarrow> revoked t) \<and>
     (replacedBy t \<noteq> replacedBy s \<longrightarrow> rot \<and> \<not> revoked s \<and> revoked t)"

text \<open>
  \<open>change rot ss ts\<close>: what one operation may do to the table: revoke rows, append an
  active row, or (a rotation) append an active row and link one active row to it.
\<close>

definition change :: "bool \<Rightarrow> session list \<Rightarrow> session list \<Rightarrow> bool" where
  "change rot ss ts \<longleftrightarrow>
     list_all2 revoked_only ss ts \<or>
     (\<exists>new. ts = ss @ [new] \<and> \<not> revoked new \<and> replacedBy new = None) \<or>
     (rot \<and> (\<exists>j s new. find (\<lambda>s. refreshJti s = j) ss = Some s \<and> \<not> revoked s \<and>
        refreshJti new \<notin> set (map refreshJti ss) \<and> \<not> revoked new \<and> replacedBy new = None \<and>
        ts = update_row j (\<lambda>s. s\<lparr>revoked := True, replacedBy := Some (refreshJti new)\<rparr>) ss @ [new]))"

section \<open>Example states\<close>

text \<open>
  Concrete tables on which the theorems below are instantiated.
\<close>

definition ex_users :: "user list" where
  "ex_users = [\<lparr>u_id = ''alice'', email = ''alice@example.com'', passwordHash = ''h1'',
      displayName = ''Alice'', age = 30, twoFAEnabled = False, totpSecret = None, rest = []\<rparr>]"

definition ex_chain :: db where
  "ex_chain = \<lparr>users = ex_users, devices = [], subscriptions = [],
     sessions =
       [\<lparr>userId = ''alice'', deviceId = ''d1'', refreshJti = 1, revoked = True,
          replacedBy = Some 2, expiresAt = 1000\<rparr>,
        \<lparr>userId = ''alice'', deviceId = ''d1'', refreshJti = 2, revoked = True,
          replacedBy = Some 3, expiresAt = 2000\<rparr>,
        \<lparr>userId = ''alice'', deviceId = ''d1'', refreshJti = 3, revoked = False,
          replacedBy = None, expiresAt = 3000\<rparr>]\<rparr>"

definition ex_logged_out :: db where
  "ex_logged_out = \<lparr>users = ex_users, devices = [], subscriptions = [],
     sessions =
       [\<lparr>userId = ''alice'', deviceId = ''d1'', refreshJti = 1, revoked = True,
          replacedBy = None, expiresAt = 1000\<rparr>,
        \<lparr>userId = ''alice'', deviceId = ''d2'', refreshJti = 2, revoked = False,
          replacedBy = None, expiresAt = 2000\<rparr>]\<rparr>"

definition ex_two_users :: db where
  "ex_two_users = \<lparr>users = ex_users @
       [\<lparr>u_id = ''bob'', email = ''bob@example.com'', passwordHash = ''h2'',
         displayName = ''Bob'', age = 41, twoFAEnabled = False, totpSecret = None, rest = []\<rparr>],
     devices = [], subscriptions = [],
     sessions =
       [\<lparr>userId = ''alice'', deviceId = ''d1'', refreshJti = 1, revoked = False,
          replacedBy = None, expiresAt = 1000\<rparr>,
        \<lparr>userId = ''bob'', deviceId = ''d7'', refreshJti = 2, revoked = False,
          replacedBy = None, expiresAt = 2000\<rparr>,
        \<lparr>userId = ''alice'', deviceId = ''d2'', refreshJti = 3, revoked = False,
          replacedBy = None, expiresAt = 3000\<rparr>]\<rparr>"

definition ex_R1 :: token where
  "ex_R1 = Signed (Refresh ''alice'' 1 ''d1'') 2592000"

definition ex_empty :: db where
  "ex_empty = \<lparr>users = ex_users, devices = [], subscriptions = [], sessions = []\<rparr>"

definition ex_login :: db where
  "ex_login = \<lparr>users = ex_users, devices = [], subscriptions = [],
     sessions = [\<lparr>userId = ''alice'', deviceId = ''d1'', refreshJti = 1, revoked = False,
        replacedBy = None, expiresAt = 2592000000\<rparr>]\<rparr>"

definition ex_pair2 :: tokens where
  "ex_pair2 = \<lparr>accessToken = Signed (Access ''alice'') 901,
     refreshToken = Signed (Refresh ''alice'' 2 ''d1'') 2592001\<rparr>"

definition ex_rotated :: db where
  "ex_rotated = \<lparr>users = ex_users, devices = [], subscriptions = [],
     sessions =
       [\<lparr>userId = ''alice'', deviceId = ''d1'', refreshJti = 1, revoked = True,
          replacedBy = Some 2, expiresAt = 2592000000\<rparr>,
        \<lparr>userId = ''alice'', deviceId = ''d1'', refreshJti = 2, revoked = False,
          replacedBy = None, expiresAt = 2592001000\<rparr>]\<rparr>"

definition ex_read :: "string \<times> uuid \<times> string \<times> session" where
  "ex_read = (''alice'', 1, ''d1'',
     \<lparr>userId = ''alice'', deviceId = ''d1'', refreshJti = 1, revoked = False,
      replacedBy = None, expiresAt = 2592000000\<rparr>)"

definition ex_pair3 :: tokens where
  "ex_pair3 = \<lparr>accessToken = Signed (Access ''alice'') 901,
     refreshToken = Signed (Refresh ''alice'' 3 ''d1'') 2592001\<rparr>"

definition ex_mid :: db where
  "ex_mid = \<lparr>users = ex_users, devices = [], subscriptions = [],
     sessions =
       [\<lparr>userId = ''alice'', deviceId = ''d1'', refreshJti = 1, revoked = True,
          replacedBy = Some 2, expiresAt = 2592000000\<rparr>,
        \<lparr>userId = ''alice'', deviceId = ''d1'', refreshJti = 2, revoked = False,
          replacedBy = None, expiresAt = 2592001000\<rparr>,
        \<lparr>userId = ''alice'', deviceId = ''d1'', refreshJti = 3, revoked = False,
          replacedBy = None, expiresAt = 2592001000\<rparr>]\<rparr>"

definition ex_raced :: db where
  "ex_raced = \<lparr>users = ex_users, devices = [], subscriptions = [],
     sessions =
       [\<lparr>userId = ''alice'', deviceId = ''d1'', refreshJti = 1, revoked = True,
          replacedBy = Some 3, expiresAt = 2592000000\<rparr>,
        \<lparr>userId = ''alice'', deviceId = ''d1'', refreshJti = 2, revoked = False,
          replacedBy = None, expiresAt = 2592001000\<rparr>,
        \<lparr>userId = ''alice'', deviceId = ''d1'', refreshJti = 3, revoked = False,
          replacedBy = None, expiresAt = 2592001000\<rparr>]\<rparr>"

text \<open>
  The lower-casing used in the examples: the letters A to Z (adding 32 to the code sets
  bit 5), which is what \<^verbatim>\<open>String.prototype.toLowerCase\<close> does on the ASCII addresses of
  the examples.
\<close>

definition ex_toLowerCase :: "string \<Rightarrow> string" where
  "ex_toLowerCase s =
     map (\<lambda>c. if 65 \<le> (of_char c :: nat) \<and> (of_char c :: nat) \<le> 90
              then (case c of Char b0 b1 b2 b3 b4 b5 b6 b7 \<Rightarrow> Char b0 b1 b2 b3 b4 True b6 b7)
              else c) s"






definition ex_compare :: "string \<Rightarrow> string \<Rightarrow> bool" where
  "ex_compare password hash \<longleftrightarrow> password = ''password123'' \<and> (hash = ''h1'' \<or> hash = ''h3'')"


section \<open>Lemmas\<close>

lemma rank_le: "rank j ss \<le> length ss"
  by (induction ss) auto

lemma rank_decreases:
  "forward ss \<Longrightarrow> find (\<lambda>s. refreshJti s = j) ss = Some s \<Longrightarrow> replacedBy s = Some n
     \<Longrightarrow> rank n ss < rank j ss"
proof (induction ss)
  case Nil
  then show ?case by simp
next
  case (Cons a ss)
  show ?case
  proof (cases "refreshJti a = j")
    case True
    with Cons.prems have "s = a" and "n \<noteq> j" by auto
    with True show ?thesis using rank_le [of n ss] by simp
  next
    case False
    with Cons.prems have f: "find (\<lambda>s. refreshJti s = j) ss = Some s" by simp
    then have "s \<in> set ss" by (auto simp: find_Some_iff)
    with Cons.prems have "n \<noteq> refreshJti a" by auto
    with False Cons f show ?thesis by simp
  qed
qed

lemma revoked_only_refl: "revoked_only s s"
  by (simp add: revoked_only_def)

lemma revoked_only_trans: "revoked_only s t \<Longrightarrow> revoked_only t u \<Longrightarrow> revoked_only s u"
  unfolding revoked_only_def by (cases s, cases t, cases u) auto

lemma revoked_only_fields:
  "revoked_only s t \<Longrightarrow> refreshJti t = refreshJti s \<and> replacedBy t = replacedBy s \<and>
     userId t = userId s \<and> deviceId t = deviceId s \<and> expiresAt t = expiresAt s"
  unfolding revoked_only_def by (cases s, cases t) auto

lemma revoked_only_revoke: "revoked_only s (s\<lparr>revoked := True\<rparr>)"
  by (simp add: revoked_only_def)

lemma update_row_rel:
  "(\<And>s. R s s) \<Longrightarrow> (\<And>s. R s (f s)) \<Longrightarrow> list_all2 R ss (update_row j f ss)"
  by (induction ss) (auto simp: list_all2_refl)

lemma find_rel:
  "list_all2 revoked_only ss ts \<Longrightarrow>
     rel_option revoked_only (find (\<lambda>s. refreshJti s = j) ss) (find (\<lambda>s. refreshJti s = j) ts)"
  by (induction ss ts rule: list_all2_induct) (auto dest: revoked_only_fields)

lemma rank_rel: "list_all2 revoked_only ss ts \<Longrightarrow> rank j ts = rank j ss"
  by (induction ss ts rule: list_all2_induct) (auto dest: revoked_only_fields list_all2_lengthD)

lemma forward_rel: "list_all2 revoked_only ss ts \<Longrightarrow> forward ss \<Longrightarrow> forward ts"
proof (induction ss ts rule: list_all2_induct)
  case Nil
  then show ?case by simp
next
  case (Cons s ss t ts)
  have "\<forall>u \<in> set ts. replacedBy u \<noteq> Some (refreshJti t)"
  proof
    fix u assume "u \<in> set ts"
    with Cons.hyps(2) obtain v where "v \<in> set ss" "revoked_only v u"
      by (metis in_set_conv_nth list_all2_conv_all_nth)
    with Cons.prems Cons.hyps(1) show "replacedBy u \<noteq> Some (refreshJti t)"
      by (auto dest!: revoked_only_fields)
  qed
  with Cons show ?case by (auto dest!: revoked_only_fields)
qed

lemma reach_rel:
  assumes "list_all2 revoked_only ss ts" and "reach ss j k"
  shows "reach ts j k"
  using assms(2)
proof (induction rule: reach.induct)
  case (reach_here j s)
  with find_rel [OF assms(1), of j] show ?case
    by (auto simp: option_rel_Some1 intro: reach.reach_here)
next
  case (reach_next j s n k)
  with find_rel [OF assms(1), of j] show ?case
    by (auto simp: option_rel_Some1 dest!: revoked_only_fields intro: reach.reach_next)
qed

lemma session_update_Some:
  "session_findUnique d j = Some s \<Longrightarrow>
     session_update d j f = Inr (d\<lparr>sessions := update_row j f (sessions d)\<rparr>)"
  by (simp add: session_update_def)

lemma find_update_row:
  "find (\<lambda>s. refreshJti s = j) ss = Some s \<Longrightarrow> refreshJti (f s) = j \<Longrightarrow>
     find (\<lambda>s. refreshJti s = j) (update_row j f ss) = Some (f s)"
  by (induction ss) (auto split: if_splits)

lemma find_update_row_other:
  "k \<noteq> j \<Longrightarrow> (\<And>s. refreshJti (f s) = refreshJti s) \<Longrightarrow>
     find (\<lambda>s. refreshJti s = k) (update_row j f ss) = find (\<lambda>s. refreshJti s = k) ss"
  by (induction ss) auto

lemma reach_cases:
  "reach ss j k \<Longrightarrow>
     (\<exists>s. find (\<lambda>s. refreshJti s = j) ss = Some s \<and>
        (k = j \<or> (\<exists>n. replacedBy s = Some n \<and> reach ss n k)))"
  by (erule reach.cases) auto

lemma revokeFamily_total:
  "forward (sessions d) \<Longrightarrow>
     \<exists>d'. revokeFamily d j = Some (Inr (), d') \<and> users d' = users d \<and> devices d' = devices d \<and>
       list_all2 revoked_only (sessions d) (sessions d') \<and>
       (\<forall>k. reach (sessions d) j k \<longrightarrow>
          (\<exists>t. find (\<lambda>s. refreshJti s = k) (sessions d') = Some t \<and> revoked t))"
proof (induction "rank j (sessions d)" arbitrary: d j rule: less_induct)
  case less
  show ?case
  proof (cases "session_findUnique d j")
    case None
    then have "revokeFamily d j = Some (Inr (), d)"
      by (subst revokeFamily.simps) simp
    moreover have "\<not> reach (sessions d) j k" for k
      using None by (auto dest: reach_cases simp: session_findUnique_def)
    ultimately show ?thesis
      by (auto simp: list_all2_refl revoked_only_refl)
  next
    case (Some s)
    define d1 where "d1 = d\<lparr>sessions := update_row j (\<lambda>s. s\<lparr>revoked := True\<rparr>) (sessions d)\<rparr>"
    have fs: "find (\<lambda>s. refreshJti s = j) (sessions d) = Some s"
      using Some by (simp add: session_findUnique_def)
    then have js: "refreshJti s = j" by (auto simp: find_Some_iff)
    have upd: "session_update d j (\<lambda>s. s\<lparr>revoked := True\<rparr>) = Inr d1"
      using Some by (simp add: session_update_Some d1_def)
    have rel1: "list_all2 revoked_only (sessions d) (sessions d1)"
      unfolding d1_def by (simp add: update_row_rel revoked_only_refl revoked_only_revoke)
    have fwd1: "forward (sessions d1)"
      using rel1 less.prems by (rule forward_rel)
    have f1: "find (\<lambda>s. refreshJti s = j) (sessions d1) = Some (s\<lparr>revoked := True\<rparr>)"
      unfolding d1_def using fs js by (simp add: find_update_row)
    show ?thesis
    proof (cases "replacedBy s")
      case None
      have "revokeFamily d j = Some (Inr (), d1)"
        using Some upd None by (subst revokeFamily.simps) simp
      moreover have "\<exists>t. find (\<lambda>s. refreshJti s = k) (sessions d1) = Some t \<and> revoked t"
        if "reach (sessions d) j k" for k
      proof -
        from that fs None have "k = j" by (auto dest: reach_cases)
        with f1 show ?thesis by simp
      qed
      ultimately show ?thesis
        using rel1 by (auto simp: d1_def)
    next
      case (Some n)
      have dec: "rank n (sessions d1) < rank j (sessions d)"
        using rank_decreases [OF less.prems fs Some] rank_rel [OF rel1, of n] by simp
      from less.hyps [OF dec fwd1] obtain d' where
        r: "revokeFamily d1 n = Some (Inr (), d')" and
        u: "users d' = users d1" "devices d' = devices d1" and
        rel2: "list_all2 revoked_only (sessions d1) (sessions d')" and
        rv: "\<And>k. reach (sessions d1) n k \<Longrightarrow>
               \<exists>t. find (\<lambda>s. refreshJti s = k) (sessions d') = Some t \<and> revoked t"
        by blast
      have eq: "revokeFamily d j = Some (Inr (), d')"
        using \<open>session_findUnique d j = Some s\<close> upd Some r
        by (subst revokeFamily.simps) simp
      have rel: "list_all2 revoked_only (sessions d) (sessions d')"
        using rel1 rel2 revoked_only_trans
        by (rule list_all2_trans [rotated]) 
      have "\<exists>t. find (\<lambda>s. refreshJti s = k) (sessions d') = Some t \<and> revoked t"
        if rk: "reach (sessions d) j k" for k
      proof (cases "k = j")
        case True
        from find_rel [OF rel2, of j] f1 obtain t where
          "find (\<lambda>s. refreshJti s = j) (sessions d') = Some t" "revoked_only (s\<lparr>revoked := True\<rparr>) t"
          by (auto simp: option_rel_Some1)
        with True show ?thesis by (auto simp: revoked_only_def)
      next
        case False
        with rk fs Some have "reach (sessions d) n k" by (auto dest: reach_cases)
        then have "reach (sessions d1) n k" using rel1 reach_rel by blast
        then show ?thesis by (rule rv)
      qed
      with eq u rel show ?thesis by (auto simp: d1_def)
    qed
  qed
qed

lemma rotateRefresh_revoked:
  assumes "forward (sessions d)"
    and "jwt_verify now tok = Some (Refresh sub j did)"
    and "session_findUnique d j = Some s" and "revoked s"
  shows "\<exists>d'. rotateRefresh now newJti (Some tok) d =
            Some (Inl (UnauthorizedError ''Token has been revoked''), d') \<and>
          users d' = users d \<and> devices d' = devices d \<and>
          list_all2 revoked_only (sessions d) (sessions d') \<and>
          (\<forall>k. reach (sessions d) j k \<longrightarrow>
             (\<exists>t. session_findUnique d' k = Some t \<and> revoked t))"
proof -
  from revokeFamily_total [OF assms(1), of j] obtain d' where
    "revokeFamily d j = Some (Inr (), d')" "users d' = users d" "devices d' = devices d"
    "list_all2 revoked_only (sessions d) (sessions d')"
    "\<forall>k. reach (sessions d) j k \<longrightarrow>
          (\<exists>t. find (\<lambda>s. refreshJti s = k) (sessions d') = Some t \<and> revoked t)"
    by blast
  with assms(2-4) show ?thesis
    by (simp add: rotateRefresh_def rotateRefresh_lookup_def rotateRefresh_commit_def
        session_findUnique_def)
qed

lemma rotateRefresh_revoked_unauthorized:
  assumes "forward (sessions d)"
    and "session_findUnique d k = Some t" and "revoked t"
    and "jwt_decode_jti tok = Some k"
  shows "\<exists>m d'. rotateRefresh now newJti (Some tok) d = Some (Inl (UnauthorizedError m), d')"
proof (cases "jwt_verify now tok")
  case None
  then show ?thesis
    by (simp add: rotateRefresh_def rotateRefresh_lookup_def)
next
  case (Some p)
  with assms(4) obtain sub did where p: "p = Refresh sub k did"
    by (cases tok; cases p) (auto split: if_splits)
  from rotateRefresh_revoked [OF assms(1) Some [unfolded p] assms(2,3)]
  show ?thesis by blast
qed

lemma issueTokens_cases:
  "issueTokens now j uid did d =
     (if uid \<notin> set (map u_id (users d)) \<or> j \<in> set (map refreshJti (sessions d))
      then (Inl PrismaError, d)
      else (Inr \<lparr>accessToken = jwt_sign now (Access uid) ACCESS_TTL,
                 refreshToken = jwt_sign now (Refresh uid j did) REFRESH_TTL_SECONDS\<rparr>,
            d\<lparr>sessions := sessions d @ [fresh_session now j uid did]\<rparr>))"
  by (simp add: issueTokens_def session_create_def fresh_session_def)

lemma find_append_Some:
  "find P xs = Some x \<Longrightarrow> find P (xs @ ys) = Some x"
  by (induction xs) (auto split: if_splits)

lemma find_None_jti:
  "find (\<lambda>s. refreshJti s = j) ss = None \<longleftrightarrow> j \<notin> set (map refreshJti ss)"
  by (auto simp: find_None_iff)

lemma rotateRefresh_active:
  assumes "jwt_verify now tok = Some (Refresh sub j did)"
    and "session_findUnique d j = Some s" and "\<not> revoked s"
  shows "rotateRefresh now nj (Some tok) d =
     (if sub \<notin> set (map u_id (users d)) \<or> nj \<in> set (map refreshJti (sessions d))
      then Some (Inl PrismaError, d)
      else Some (Inr \<lparr>accessToken = jwt_sign now (Access sub) ACCESS_TTL,
                      refreshToken = jwt_sign now (Refresh sub nj did) REFRESH_TTL_SECONDS\<rparr>,
            d\<lparr>sessions := update_row j (\<lambda>s. s\<lparr>revoked := True, replacedBy := Some nj\<rparr>)
                  (sessions d @ [fresh_session now nj sub did])\<rparr>))"
  using assms
  by (simp add: rotateRefresh_def rotateRefresh_lookup_def rotateRefresh_commit_def
      issueTokens_cases rotateRefresh_update_def session_update_def session_findUnique_def
      find_append_Some jwt_sign_def)

lemma rotateRefresh_cases:
  assumes "forward (sessions d)"
  obtains
    (fail) e where "rotateRefresh now nj tok d = Some (Inl e, d)"
  | (reuse) t sub j did s d' where "tok = Some t"
      "jwt_verify now t = Some (Refresh sub j did)" "session_findUnique d j = Some s" "revoked s"
      "rotateRefresh now nj tok d = Some (Inl (UnauthorizedError ''Token has been revoked''), d')"
      "users d' = users d" "devices d' = devices d"
      "list_all2 revoked_only (sessions d) (sessions d')"
  | (rotated) t sub j did s where "tok = Some t"
      "jwt_verify now t = Some (Refresh sub j did)" "session_findUnique d j = Some s"
      "\<not> revoked s" "sub \<in> set (map u_id (users d))" "nj \<notin> set (map refreshJti (sessions d))"
      "rotateRefresh now nj tok d =
         Some (Inr \<lparr>accessToken = jwt_sign now (Access sub) ACCESS_TTL,
                    refreshToken = jwt_sign now (Refresh sub nj did) REFRESH_TTL_SECONDS\<rparr>,
            d\<lparr>sessions := update_row j (\<lambda>s. s\<lparr>revoked := True, replacedBy := Some nj\<rparr>)
                  (sessions d @ [fresh_session now nj sub did])\<rparr>)"
proof (cases "rotateRefresh_lookup now tok d")
  case (Inl e)
  then show ?thesis using fail by (simp add: rotateRefresh_def)
next
  case (Inr r)
  then obtain t sub j did s where t: "tok = Some t" and v: "jwt_verify now t = Some (Refresh sub j did)"
    and f: "session_findUnique d j = Some s"
    by (auto simp: rotateRefresh_lookup_def split: option.splits payload.splits)
  show ?thesis
  proof (cases "revoked s")
    case True
    from rotateRefresh_revoked [OF assms v f True, of nj] show ?thesis
      using reuse t v f True by blast
  next
    case False
    from rotateRefresh_active [OF v f False, of nj] show ?thesis
      using fail [of PrismaError] rotated [OF t v f False] t
      by (auto split: if_splits)
  qed
qed

lemma node_step_refl: "node_step rot s s"
  by (simp add: node_step_def)

lemma node_step_revoked_only: "revoked_only s t \<Longrightarrow> node_step rot s t"
  unfolding node_step_def revoked_only_def by (cases s, cases t) auto

lemma set_update_row: "set (update_row j f ss) \<subseteq> set ss \<union> f ` set ss"
  by (induction ss) auto

lemma update_row_append:
  "j \<in> set (map refreshJti xs) \<Longrightarrow> update_row j f (xs @ ys) = update_row j f xs @ ys"
  by (induction xs) auto

lemma forward_append:
  "forward (xs @ ys) \<longleftrightarrow>
     forward xs \<and> forward ys \<and> (\<forall>s \<in> set xs. \<forall>t \<in> set ys. replacedBy t \<noteq> Some (refreshJti s))"
  by (induction xs) auto

lemma forward_update_link:
  "forward ss \<Longrightarrow> n \<notin> set (map refreshJti ss) \<Longrightarrow>
     forward (update_row j (\<lambda>s. s\<lparr>revoked := True, replacedBy := Some n\<rparr>) ss)"
proof (induction ss)
  case Nil
  then show ?case by simp
next
  case (Cons a ss)
  show ?case
  proof (cases "refreshJti a = j")
    case True
    with Cons.prems show ?thesis by auto
  next
    case False
    have "replacedBy t \<noteq> Some (refreshJti a)"
      if "t \<in> set (update_row j (\<lambda>s. s\<lparr>revoked := True, replacedBy := Some n\<rparr>) ss)" for t
      using that set_update_row [of j "\<lambda>s. s\<lparr>revoked := True, replacedBy := Some n\<rparr>" ss] Cons.prems
      by auto
    with False Cons show ?thesis by simp
  qed
qed

lemma unlinked_update_row:
  "unlinked ss \<Longrightarrow> (\<And>s. revoked (f s)) \<Longrightarrow> unlinked (update_row j f ss)"
  using set_update_row [of j f ss] unfolding unlinked_def by auto

lemma unlinked_rel: "list_all2 revoked_only ss ts \<Longrightarrow> unlinked ss \<Longrightarrow> unlinked ts"
  unfolding unlinked_def
  by (metis in_set_conv_nth list_all2_conv_all_nth revoked_only_def revoked_only_fields)

lemma find_update_row_eq:
  "(\<And>s. refreshJti (f s) = refreshJti s) \<Longrightarrow>
     find (\<lambda>s. refreshJti s = k) (update_row j f ss) =
       (if k = j then map_option f (find (\<lambda>s. refreshJti s = j) ss)
        else find (\<lambda>s. refreshJti s = k) ss)"
  by (induction ss) auto

lemma find_map_jti:
  "(\<And>s. refreshJti (g s) = refreshJti s) \<Longrightarrow>
     find (\<lambda>s. refreshJti s = k) (map g ss) = map_option g (find (\<lambda>s. refreshJti s = k) ss)"
  by (induction ss) auto

lemma find_jti: "find (\<lambda>s. refreshJti s = j) ss = Some s \<Longrightarrow> refreshJti s = j \<and> s \<in> set ss"
  by (auto simp: find_Some_iff)

lemma change_same: "change rot ss ss"
  by (simp add: change_def list_all2_refl revoked_only_refl)

lemma change_forward:
  assumes "change rot ss ts" and "forward ss"
  shows "forward ts"
  using assms unfolding change_def
proof (elim disjE conjE exE)
  assume "list_all2 revoked_only ss ts"
  then show ?thesis using assms(2) by (rule forward_rel)
next
  fix new assume "ts = ss @ [new]" "replacedBy new = None"
  with assms(2) show ?thesis by (simp add: forward_append)
next
  fix j s new
  assume n: "refreshJti new \<notin> set (map refreshJti ss)" "replacedBy new = None"
    and ts: "ts = update_row j (\<lambda>s. s\<lparr>revoked := True, replacedBy := Some (refreshJti new)\<rparr>) ss @ [new]"
  from forward_update_link [OF assms(2) n(1), of j] n(2) show ?thesis
    unfolding ts by (simp add: forward_append)
qed

lemma change_unlinked:
  assumes "change rot ss ts" and "unlinked ss"
  shows "unlinked ts"
  using assms unfolding change_def
proof (elim disjE conjE exE)
  assume "list_all2 revoked_only ss ts"
  then show ?thesis using assms(2) by (rule unlinked_rel)
next
  fix new assume "ts = ss @ [new]" "replacedBy new = None"
  with assms(2) show ?thesis by (simp add: unlinked_def)
next
  fix j s new
  assume n: "replacedBy new = None"
    and ts: "ts = update_row j (\<lambda>s. s\<lparr>revoked := True, replacedBy := Some (refreshJti new)\<rparr>) ss @ [new]"
  have "unlinked (update_row j (\<lambda>s. s\<lparr>revoked := True, replacedBy := Some (refreshJti new)\<rparr>) ss)"
    using assms(2) by (rule unlinked_update_row) simp
  with n show ?thesis unfolding ts by (simp add: unlinked_def)
qed

lemma change_node:
  assumes "change rot ss ts" and "find (\<lambda>s. refreshJti s = k) ss = Some s"
  shows "\<exists>t. find (\<lambda>s. refreshJti s = k) ts = Some t \<and> node_step rot s t"
  using assms(1) unfolding change_def
proof (elim disjE conjE exE)
  assume "list_all2 revoked_only ss ts"
  from find_rel [OF this, of k] assms(2) show ?thesis
    by (auto simp: option_rel_Some1 intro: node_step_revoked_only)
next
  fix new assume "ts = ss @ [new]"
  with assms(2) show ?thesis by (simp add: find_append_Some node_step_refl)
next
  fix j s' new
  assume rot and f: "find (\<lambda>s. refreshJti s = j) ss = Some s'" and nr: "\<not> revoked s'"
    and ts: "ts = update_row j (\<lambda>s. s\<lparr>revoked := True, replacedBy := Some (refreshJti new)\<rparr>) ss @ [new]"
  let ?f = "\<lambda>s. s\<lparr>revoked := True, replacedBy := Some (refreshJti new)\<rparr>"
  have "find (\<lambda>s. refreshJti s = k) (update_row j ?f ss) =
      (if k = j then Some (?f s') else Some s)"
    using f assms(2) by (simp add: find_update_row_eq)
  then have "find (\<lambda>s. refreshJti s = k) ts = (if k = j then Some (?f s') else Some s)"
    unfolding ts by (auto simp: find_append_Some)
  moreover have "s' = s" if "k = j" using that f assms(2) by simp
  ultimately show ?thesis using \<open>rot\<close> nr
    by (auto simp: node_step_def)
qed

lemma logout_rel:
  "list_all2 revoked_only (sessions d) (sessions (snd (logout now tok d)))"
  by (auto simp: logout_def session_update_def list_all2_refl revoked_only_refl
      update_row_rel revoked_only_revoke split: option.splits)

lemma logoutAllDevices_rel:
  "list_all2 revoked_only (sessions d) (sessions (snd (logoutAllDevices uid d)))"
  by (simp add: logoutAllDevices_def session_updateMany_def list_all2_map2
      list_all2_refl revoked_only_refl revoked_only_revoke)

lemma step_change:
  assumes "forward (sessions d)" and "step x d = Some d'"
  shows "change (is_rotate x) (sessions d) (sessions d')"
proof (cases x)
  case (IssueTokens now j uid did)
  with assms(2) show ?thesis
    by (auto simp: issueTokens_cases change_def fresh_session_def list_all2_refl revoked_only_refl
        split: if_splits)
next
  case (RotateRefresh now nj tok)
  from assms(1) show ?thesis
  proof (cases rule: rotateRefresh_cases [where now = now and nj = nj and tok = tok])
    case (fail e)
    with assms(2) RotateRefresh show ?thesis by (auto simp: change_same)
  next
    case (reuse t sub j did s d1)
    with assms(2) RotateRefresh show ?thesis by (auto simp: change_def)
  next
    case (rotated t sub j did s)
    let ?new = "fresh_session now nj sub did"
    have j: "j \<in> set (map refreshJti (sessions d))"
      using rotated(3) by (auto simp: session_findUnique_def dest: find_jti)
    have "sessions d' = update_row j (\<lambda>s. s\<lparr>revoked := True, replacedBy := Some (refreshJti ?new)\<rparr>)
        (sessions d) @ [?new]"
      using assms(2) RotateRefresh rotated(7) update_row_append [OF j]
      by (auto simp: fresh_session_def)
    moreover have "\<not> revoked ?new" "replacedBy ?new = None" "refreshJti ?new = nj"
      by (simp_all add: fresh_session_def)
    ultimately show ?thesis
      using rotated(3,4,6) RotateRefresh unfolding change_def session_findUnique_def
      by (intro disjI2) (simp, blast)
  qed
next
  case (Logout now tok)
  with assms(2) logout_rel [of d now tok] show ?thesis by (auto simp: change_def)
next
  case (LogoutAllDevices uid)
  with assms(2) logoutAllDevices_rel [of d uid] show ?thesis by (auto simp: change_def)
next
  case (RevokeFamily j)
  with assms(2) revokeFamily_total [OF assms(1), of j] show ?thesis by (auto simp: change_def)
qed

lemma run_invariants:
  "forward (sessions d) \<Longrightarrow> unlinked (sessions d) \<Longrightarrow> run xs d = Some d' \<Longrightarrow>
     forward (sessions d') \<and> unlinked (sessions d')"
proof (induction xs arbitrary: d)
  case Nil
  then show ?case by simp
next
  case (Cons x xs)
  from Cons.prems(3) obtain d1 where s: "step x d = Some d1" and r: "run xs d1 = Some d'"
    by (auto split: option.splits)
  from step_change [OF Cons.prems(1) s] Cons.prems(1,2)
  have "forward (sessions d1)" "unlinked (sessions d1)"
    by (auto dest: change_forward change_unlinked)
  then show ?case using r by (rule Cons.IH)
qed

lemma run_forward:
  "forward (sessions d) \<Longrightarrow> run xs d = Some d' \<Longrightarrow> forward (sessions d')"
proof (induction xs arbitrary: d)
  case Nil
  then show ?case by simp
next
  case (Cons x xs)
  from Cons.prems(2) obtain d1 where s: "step x d = Some d1" and r: "run xs d1 = Some d'"
    by (auto split: option.splits)
  from step_change [OF Cons.prems(1) s] Cons.prems(1)
  have "forward (sessions d1)" by (auto dest: change_forward)
  then show ?case using r by (rule Cons.IH)
qed

lemma reachable_forward:
  "sessions d0 = [] \<Longrightarrow> run xs d0 = Some d \<Longrightarrow> forward (sessions d)"
  using run_forward [of d0 xs d] by simp

lemma run_revoked:
  "forward (sessions d) \<Longrightarrow> run xs d = Some d' \<Longrightarrow> session_findUnique d j = Some s \<Longrightarrow>
     revoked s \<Longrightarrow> \<exists>t. session_findUnique d' j = Some t \<and> revoked t"
proof (induction xs arbitrary: d s)
  case Nil
  then show ?case by simp
next
  case (Cons x xs)
  from Cons.prems(2) obtain d1 where st: "step x d = Some d1" and r: "run xs d1 = Some d'"
    by (auto split: option.splits)
  from step_change [OF Cons.prems(1) st] have c: "change (is_rotate x) (sessions d) (sessions d1)" .
  then have f: "forward (sessions d1)" using Cons.prems(1) by (rule change_forward)
  from change_node [OF c, of j s] Cons.prems(3,4) obtain t where
    "session_findUnique d1 j = Some t" "revoked t"
    by (auto simp: session_findUnique_def node_step_def)
  with Cons.IH [OF f r] show ?case by blast
qed

lemma update_row_id:
  "find (\<lambda>s. refreshJti s = j) ss = Some s \<Longrightarrow> f s = s \<Longrightarrow> update_row j f ss = ss"
  by (induction ss) (auto split: if_splits)

lemma revoke_id: "revoked s \<Longrightarrow> s\<lparr>revoked := True\<rparr> = s"
  by (cases s) simp

lemma logoutAllDevices_eq:
  "logoutAllDevices uid d =
     (\<lparr>success = True, revokedSessions =
         length (filter (\<lambda>s. userId s = uid \<and> \<not> revoked s) (sessions d))\<rparr>,
      d\<lparr>sessions := map (\<lambda>s. if userId s = uid then s\<lparr>revoked := True\<rparr> else s) (sessions d)\<rparr>)"
proof -
  have "(\<lambda>s::session. if userId s = uid \<and> revoked s = False then s\<lparr>revoked := True\<rparr> else s) =
      (\<lambda>s. if userId s = uid then s\<lparr>revoked := True\<rparr> else s)"
    by (rule ext) (simp add: revoke_id)
  then show ?thesis
    by (simp add: logoutAllDevices_def session_updateMany_def)
qed

lemma findUnique_logoutAll:
  "session_findUnique (snd (logoutAllDevices uid d)) j =
     map_option (\<lambda>s. if userId s = uid then s\<lparr>revoked := True\<rparr> else s) (session_findUnique d j)"
  unfolding session_findUnique_def logoutAllDevices_eq
  by (simp add: find_map_jti)

lemma forward_logoutAll:
  "forward (sessions d) \<Longrightarrow> forward (sessions (snd (logoutAllDevices uid d)))"
  using logoutAllDevices_rel [of d uid] by (rule forward_rel)

lemma jwt_verify_decode: "jwt_verify now t = Some p \<Longrightarrow> jwt_decode_jti t = payload_jti p"
  by (cases t) (auto split: if_splits)

lemma step_total: "forward (sessions d) \<Longrightarrow> \<exists>d'. step x d = Some d'"
proof (cases x)
  case (RotateRefresh now nj tok)
  assume "forward (sessions d)"
  then show ?thesis
    by (cases rule: rotateRefresh_cases [where now = now and nj = nj and tok = tok])
       (simp_all add: RotateRefresh)
next
  case (RevokeFamily j)
  assume "forward (sessions d)"
  from revokeFamily_total [OF this, of j] RevokeFamily show ?thesis by auto
qed simp_all

lemma ex_issue: "issueTokens 0 1 ''alice'' ''d1'' ex_empty =
    (Inr \<lparr>accessToken = Signed (Access ''alice'') 900, refreshToken = ex_R1\<rparr>, ex_login)"
  by (simp add: issueTokens_def session_create_def ex_empty_def ex_login_def ex_users_def
      ex_R1_def jwt_sign_def ACCESS_TTL_def REFRESH_TTL_SECONDS_def)

lemma ex_rotate: "rotateRefresh 1000 2 (Some ex_R1) ex_login = Some (Inr ex_pair2, ex_rotated)"
  by (simp add: rotateRefresh_def rotateRefresh_lookup_def rotateRefresh_commit_def
      rotateRefresh_update_def session_update_def session_findUnique_def
      issueTokens_def session_create_def ex_login_def ex_rotated_def ex_users_def
      ex_R1_def ex_pair2_def jwt_sign_def ACCESS_TTL_def REFRESH_TTL_SECONDS_def)

lemma ex_run: "run [IssueTokens 0 1 ''alice'' ''d1'', RotateRefresh 1000 2 (Some ex_R1)] ex_empty
    = Some ex_rotated"
  by (simp only: run.simps step.simps ex_issue ex_rotate snd_conv option.map option.case)

lemma rotateRefresh_Inr:
  assumes "rotateRefresh now nj tok d = Some (Inr pair, d')"
  shows "\<exists>t sub j did s. tok = Some t \<and> jwt_verify now t = Some (Refresh sub j did) \<and>
     session_findUnique d j = Some s \<and> \<not> revoked s \<and>
     sub \<in> set (map u_id (users d)) \<and> nj \<notin> set (map refreshJti (sessions d)) \<and>
     pair = \<lparr>accessToken = jwt_sign now (Access sub) ACCESS_TTL,
             refreshToken = jwt_sign now (Refresh sub nj did) REFRESH_TTL_SECONDS\<rparr> \<and>
     d' = d\<lparr>sessions := update_row j (\<lambda>s. s\<lparr>revoked := True, replacedBy := Some nj\<rparr>)
                  (sessions d @ [fresh_session now nj sub did])\<rparr>"
proof (cases "rotateRefresh_lookup now tok d")
  case (Inl e)
  with assms show ?thesis by (simp add: rotateRefresh_def)
next
  case (Inr r)
  then obtain t sub j did s where t: "tok = Some t" and v: "jwt_verify now t = Some (Refresh sub j did)"
    and f: "session_findUnique d j = Some s" and r: "r = (sub, j, did, s)"
    by (auto simp: rotateRefresh_lookup_def split: option.splits payload.splits)
  show ?thesis
  proof (cases "revoked s")
    case True
    with assms Inr r show ?thesis
      by (auto simp: rotateRefresh_def rotateRefresh_commit_def
          split: option.splits prod.splits sum.splits)
  next
    case False
    from rotateRefresh_active [OF v f False, of nj] assms t v f False show ?thesis
      by (auto split: if_splits)
  qed
qed

lemma find_append_None:
  "find P xs = None \<Longrightarrow> find P (xs @ ys) = find P ys"
  by (induction xs) (auto split: if_splits)

lemma jwt_verify_same:
  "jwt_verify now t = Some p \<Longrightarrow> jwt_verify now' t = Some p' \<Longrightarrow> p' = p"
  by (cases t) (auto split: if_splits)

lemma revoked_only_maps:
  "list_all2 revoked_only ss ts \<Longrightarrow>
     map refreshJti ts = map refreshJti ss \<and> map replacedBy ts = map replacedBy ss"
  by (induction ss ts rule: list_all2_induct) (auto dest: revoked_only_fields)

lemma sanitizeUser_keys:
  "''passwordHash'' \<notin> set (map fst (sanitizeUser user)) \<and>
   ''totpSecret'' \<notin> set (map fst (sanitizeUser user))"
  unfolding sanitizeUser_def by (induction user) (auto simp: case_prod_beta)

lemma sanitizeUser_other:
  "k \<noteq> ''passwordHash'' \<Longrightarrow> k \<noteq> ''totpSecret'' \<Longrightarrow>
     map_of (sanitizeUser user) k = map_of user k"
  unfolding sanitizeUser_def by (induction user) (auto simp: case_prod_beta)


lemma register_Inr:
  "register toLowerCase hash now newId mail password name years d = (Inr r, d') \<Longrightarrow>
     \<exists>u. r = sanitizeUser (user_object u)"
  by (auto simp: register_def Let_def split: if_splits option.splits sum.splits)

lemma login_Inr:
  "login toLowerCase compare now j mail password did plat ua d = (Inr (LoggedIn r toks), d') \<Longrightarrow>
     \<exists>u. r = sanitizeUser (user_object u)"
  by (auto simp: login_def Let_def split: if_splits option.splits sum.splits prod.splits)

lemma verify2FA_Inr:
  assumes "verify2FA check now j tempToken code did d = (Inr (r, toks), d')"
  shows "\<exists>t sub user secret. tempToken = Some t \<and> code \<noteq> [] \<and>
     jwt_verify now t = Some (Temp sub) \<and> user_findUnique_id d sub = Some user \<and>
     twoFAEnabled user \<and> totpSecret user = Some secret \<and> secret \<noteq> [] \<and>
     check code secret \<and> r = sanitizeUser (user_object user) \<and>
     issueTokens now j (u_id user) did d = (Inr toks, d')"
  using assms
  by (auto simp: verify2FA_def split: if_splits option.splits payload.splits sum.splits prod.splits)

lemma getUserById_Inr:
  "getUserById uid d = Inr r \<Longrightarrow> \<exists>x. r = sanitizeUser x"
  by (auto simp: getUserById_def split: option.splits)



section \<open>The claims\<close>

text \<open>
  Claim C1. Let a refresh token verify and name a session row that is revoked and has a
  successor. Then \<open>rotateRefresh\<close> fails with an unauthorized error, and afterwards every
  row reached from that row along \<^verbatim>\<open>replacedBy\<close> links, the newest one included, is revoked;
  a later \<open>rotateRefresh\<close> with a token carrying the jti of any of those rows fails with
  an unauthorized error as well (at any clock value).
\<close>

theorem reuse_cascades_forward:
  assumes "forward (sessions d)"
    and "jwt_verify now tok = Some (Refresh sub j did)"
    and "session_findUnique d j = Some s" and "revoked s" and "replacedBy s = Some n"
  shows "\<exists>d'. rotateRefresh now newJti (Some tok) d =
            Some (Inl (UnauthorizedError ''Token has been revoked''), d') \<and>
          (\<forall>k. reach (sessions d) j k \<longrightarrow>
             (\<exists>t. session_findUnique d' k = Some t \<and> revoked t) \<and>
             (\<forall>now' newJti' tok'. jwt_decode_jti tok' = Some k \<longrightarrow>
                (\<exists>m d''. rotateRefresh now' newJti' (Some tok') d' =
                   Some (Inl (UnauthorizedError m), d''))))"
proof -
  from rotateRefresh_revoked [OF assms(1-4), of newJti] obtain d' where
    r: "rotateRefresh now newJti (Some tok) d =
            Some (Inl (UnauthorizedError ''Token has been revoked''), d')" and
    rel: "list_all2 revoked_only (sessions d) (sessions d')" and
    rv: "\<And>k. reach (sessions d) j k \<Longrightarrow> \<exists>t. session_findUnique d' k = Some t \<and> revoked t"
    by blast
  have fwd: "forward (sessions d')" using rel assms(1) by (rule forward_rel)
  show ?thesis
    using r rv rotateRefresh_revoked_unauthorized [OF fwd] by blast
qed

theorem reuse_cascades_forward_witness:
  "\<exists>d'. rotateRefresh 0 9 (Some (Signed (Refresh ''alice'' 1 ''d1'') 50)) ex_chain =
            Some (Inl (UnauthorizedError ''Token has been revoked''), d') \<and>
         (\<exists>t. session_findUnique d' 3 = Some t \<and> revoked t) \<and>
         (\<exists>m d''. rotateRefresh 7 10 (Some (Signed (Refresh ''alice'' 3 ''d1'') 60)) d' =
                   Some (Inl (UnauthorizedError m), d''))"
proof -
  have f: "forward (sessions ex_chain)" by (simp add: ex_chain_def)
  have v: "jwt_verify 0 (Signed (Refresh ''alice'' 1 ''d1'') 50) = Some (Refresh ''alice'' 1 ''d1'')"
    by simp
  have s: "session_findUnique ex_chain 1 = Some \<lparr>userId = ''alice'', deviceId = ''d1'',
      refreshJti = 1, revoked = True, replacedBy = Some 2, expiresAt = 1000\<rparr>"
    by (simp add: session_findUnique_def ex_chain_def)
  have r: "reach (sessions ex_chain) 1 3"
    by (rule reach_next [where n = 2], simp add: ex_chain_def, simp,
        rule reach_next [where n = 3], simp add: ex_chain_def, simp,
        rule reach_here, simp add: ex_chain_def)
  have d: "jwt_decode_jti (Signed (Refresh ''alice'' 3 ''d1'') 60) = Some 3" by simp
  from reuse_cascades_forward [OF f v s, of 2 9] obtain d' where
    "rotateRefresh 0 9 (Some (Signed (Refresh ''alice'' 1 ''d1'') 50)) ex_chain =
       Some (Inl (UnauthorizedError ''Token has been revoked''), d')"
    "\<And>k. reach (sessions ex_chain) 1 k \<Longrightarrow>
       (\<exists>t. session_findUnique d' k = Some t \<and> revoked t) \<and>
       (\<forall>now' newJti' tok'. jwt_decode_jti tok' = Some k \<longrightarrow>
          (\<exists>m d''. rotateRefresh now' newJti' (Some tok') d' =
             Some (Inl (UnauthorizedError m), d'')))"
    by auto
  with r d show ?thesis by blast
qed

text \<open>
  Claim C4. Let a refresh token verify and name a session row that is revoked and has no
  successor (revoked by logout or logout-all, never rotated). Then \<open>rotateRefresh\<close> fails
  with an unauthorized error and the whole database, every other session row included, is
  left as it was.
\<close>

theorem logged_out_token_no_cascade:
  assumes "jwt_verify now tok = Some (Refresh sub j did)"
    and "session_findUnique d j = Some s" and "revoked s" and "replacedBy s = None"
  shows "rotateRefresh now nj (Some tok) d =
           Some (Inl (UnauthorizedError ''Token has been revoked''), d)"
proof -
  have "update_row j (\<lambda>s. s\<lparr>revoked := True\<rparr>) (sessions d) = sessions d"
    using assms(2,3) by (auto simp: session_findUnique_def intro: update_row_id revoke_id)
  then have "revokeFamily d j = Some (Inr (), d)"
    using assms(2,4) by (subst revokeFamily.simps) (simp add: session_update_def)
  with assms show ?thesis
    by (simp add: rotateRefresh_def rotateRefresh_lookup_def rotateRefresh_commit_def)
qed

theorem logged_out_token_no_cascade_witness:
  "rotateRefresh 0 9 (Some (Signed (Refresh ''alice'' 1 ''d1'') 50)) ex_logged_out =
     Some (Inl (UnauthorizedError ''Token has been revoked''), ex_logged_out)"
  by (rule logged_out_token_no_cascade [where s = "\<lparr>userId = ''alice'', deviceId = ''d1'',
        refreshJti = 1, revoked = True, replacedBy = None, expiresAt = 1000\<rparr>"])
     (simp_all add: session_findUnique_def ex_logged_out_def)

text \<open>
  Claim C7. \<open>logoutAllDevices\<close> revokes every row of the principal that was not revoked
  and returns their count; afterwards every row of the principal is revoked, every row of
  another principal is as it was, and \<open>rotateRefresh\<close> with a token naming a row of the
  principal fails with an unauthorized error.
\<close>

theorem logoutAll_revokes_principal:
  assumes "forward (sessions d)" and "logoutAllDevices uid d = (r, d')"
  shows "success r \<and>
     revokedSessions r = length (filter (\<lambda>s. userId s = uid \<and> \<not> revoked s) (sessions d)) \<and>
     users d' = users d \<and> devices d' = devices d \<and>
     sessions d' = map (\<lambda>s. if userId s = uid then s\<lparr>revoked := True\<rparr> else s) (sessions d) \<and>
     (\<forall>s \<in> set (sessions d'). userId s = uid \<longrightarrow> revoked s) \<and>
     (\<forall>j s. session_findUnique d j = Some s \<longrightarrow> userId s \<noteq> uid \<longrightarrow>
        session_findUnique d' j = Some s) \<and>
     (\<forall>tok k t now nj. jwt_decode_jti tok = Some k \<longrightarrow> session_findUnique d k = Some t \<longrightarrow>
        userId t = uid \<longrightarrow>
        (\<exists>m d''. rotateRefresh now nj (Some tok) d' = Some (Inl (UnauthorizedError m), d'')))"
proof (intro conjI allI impI ballI)
  from assms(2) have r: "r = fst (logoutAllDevices uid d)" and d': "d' = snd (logoutAllDevices uid d)"
    by simp_all
  show "success r" unfolding r logoutAllDevices_eq by simp
  show "revokedSessions r = length (filter (\<lambda>s. userId s = uid \<and> \<not> revoked s) (sessions d))"
    unfolding r logoutAllDevices_eq by simp
  show "users d' = users d" unfolding d' logoutAllDevices_eq by simp
  show "devices d' = devices d" unfolding d' logoutAllDevices_eq by simp
  show s': "sessions d' = map (\<lambda>s. if userId s = uid then s\<lparr>revoked := True\<rparr> else s) (sessions d)"
    unfolding d' logoutAllDevices_eq by simp
  show "revoked s" if "s \<in> set (sessions d')" "userId s = uid" for s
  proof -
    from that(1) obtain x where "s = (if userId x = uid then x\<lparr>revoked := True\<rparr> else x)"
      unfolding s' by (auto simp only: set_map image_iff)
    with that(2) show ?thesis by (cases "userId x = uid") simp_all
  qed
  show "session_findUnique d' j = Some s"
    if "session_findUnique d j = Some s" "userId s \<noteq> uid" for j s
    using that unfolding d' findUnique_logoutAll by simp
  show "\<exists>m d''. rotateRefresh now nj (Some tok) d' = Some (Inl (UnauthorizedError m), d'')"
    if "jwt_decode_jti tok = Some k" "session_findUnique d k = Some t" "userId t = uid"
    for tok k t now nj
  proof -
    have fwd: "forward (sessions d')"
      unfolding d' using assms(1) by (rule forward_logoutAll)
    have f: "session_findUnique d' k = Some (t\<lparr>revoked := True\<rparr>)"
      unfolding d' findUnique_logoutAll using that(2,3) by simp
    have "revoked (t\<lparr>revoked := True\<rparr>)" by simp
    from rotateRefresh_revoked_unauthorized [OF fwd f this that(1)] show ?thesis .
  qed
qed

theorem logoutAll_revokes_principal_witness:
  "revokedSessions (fst (logoutAllDevices ''alice'' ex_two_users)) = 2 \<and>
   session_findUnique (snd (logoutAllDevices ''alice'' ex_two_users)) 2 =
     Some \<lparr>userId = ''bob'', deviceId = ''d7'', refreshJti = 2, revoked = False,
          replacedBy = None, expiresAt = 2000\<rparr> \<and>
   (\<exists>m d''. rotateRefresh 5 9 (Some (Signed (Refresh ''alice'' 3 ''d2'') 50))
       (snd (logoutAllDevices ''alice'' ex_two_users)) = Some (Inl (UnauthorizedError m), d''))"
proof -
  let ?r = "fst (logoutAllDevices ''alice'' ex_two_users)"
  let ?d = "snd (logoutAllDevices ''alice'' ex_two_users)"
  have f: "forward (sessions ex_two_users)" by (simp add: ex_two_users_def)
  have e: "logoutAllDevices ''alice'' ex_two_users = (?r, ?d)" by simp
  have a: "session_findUnique ex_two_users 3 = Some \<lparr>userId = ''alice'', deviceId = ''d2'',
      refreshJti = 3, revoked = False, replacedBy = None, expiresAt = 3000\<rparr>"
    and b: "session_findUnique ex_two_users 2 = Some \<lparr>userId = ''bob'', deviceId = ''d7'',
      refreshJti = 2, revoked = False, replacedBy = None, expiresAt = 2000\<rparr>"
    by (simp_all add: session_findUnique_def ex_two_users_def)
  have c: "jwt_decode_jti (Signed (Refresh ''alice'' 3 ''d2'') 50) = Some 3" by simp
  have n: "length (filter (\<lambda>s. userId s = ''alice'' \<and> \<not> revoked s) (sessions ex_two_users)) = 2"
    by (simp add: ex_two_users_def)
  note t = logoutAll_revokes_principal [OF f e]
  note t2 = t [THEN conjunct2]
  note t6 = t2 [THEN conjunct2, THEN conjunct2, THEN conjunct2, THEN conjunct2, THEN conjunct2]
  from t2 [THEN conjunct1] n have 1: "revokedSessions ?r = 2" by simp
  from t6 [THEN conjunct1, rule_format, OF b]
  have 2: "session_findUnique ?d 2 = Some \<lparr>userId = ''bob'', deviceId = ''d7'',
      refreshJti = 2, revoked = False, replacedBy = None, expiresAt = 2000\<rparr>"
    by simp
  from t6 [THEN conjunct2, rule_format, OF c a]
  have 3: "\<exists>m d''. rotateRefresh 5 9
      (Some (Signed (Refresh ''alice'' 3 ''d2'') 50)) ?d = Some (Inl (UnauthorizedError m), d'')"
    by simp
  from 1 2 3 show ?thesis by (intro conjI)
qed

text \<open>
  Claim C9. For every argument (missing, not verifying, of any type, naming no row)
  \<open>logout\<close> returns success and raises nothing. When the token verifies and its row
  exists, the row becomes revoked with its \<^verbatim>\<open>replacedBy\<close> as it was, and no other row
  changes.
\<close>

theorem logout_never_raises:
  "fst (logout now tok d) = Inr True \<and>
   (\<forall>t p j s. tok = Some t \<longrightarrow> jwt_verify now t = Some p \<longrightarrow> payload_jti p = Some j \<longrightarrow>
      session_findUnique d j = Some s \<longrightarrow>
      session_findUnique (snd (logout now tok d)) j = Some (s\<lparr>revoked := True\<rparr>) \<and>
      (\<forall>k. k \<noteq> j \<longrightarrow> session_findUnique (snd (logout now tok d)) k = session_findUnique d k))"
  by (auto simp: logout_def session_update_def session_findUnique_def find_update_row_eq
      split: option.splits)

theorem logout_never_raises_witness:
  "fst (logout 0 (Some (Signed (Refresh ''alice'' 2 ''d2'') 50)) ex_logged_out) = Inr True \<and>
   session_findUnique (snd (logout 0 (Some (Signed (Refresh ''alice'' 2 ''d2'') 50)) ex_logged_out)) 2 =
     Some \<lparr>userId = ''alice'', deviceId = ''d2'', refreshJti = 2, revoked = True,
          replacedBy = None, expiresAt = 2000\<rparr>"
proof -
  have "session_findUnique ex_logged_out 2 = Some \<lparr>userId = ''alice'', deviceId = ''d2'',
      refreshJti = 2, revoked = False, replacedBy = None, expiresAt = 2000\<rparr>"
    by (simp add: session_findUnique_def ex_logged_out_def)
  with logout_never_raises [of 0 "Some (Signed (Refresh ''alice'' 2 ''d2'') 50)" ex_logged_out]
  show ?thesis by simp
qed

text \<open>
  Claim C5. When \<open>rotateRefresh\<close> succeeds, the refresh token of the returned pair carries
  a jti different from the jti of the presented token, and in every state reached afterwards
  by any sequence of operations, \<open>rotateRefresh\<close> with a token carrying the old jti fails
  with an unauthorized error.
\<close>

theorem rotation_retires_old_jti:
  assumes "forward (sessions d)"
    and "rotateRefresh now nj (Some tok) d = Some (Inr pair, d')"
  shows "\<exists>j. jwt_decode_jti tok = Some j \<and> jwt_decode_jti (refreshToken pair) = Some nj \<and>
     nj \<noteq> j \<and>
     (\<forall>xs d'' now' nj' tok'. run xs d' = Some d'' \<longrightarrow> jwt_decode_jti tok' = Some j \<longrightarrow>
        (\<exists>m d3. rotateRefresh now' nj' (Some tok') d'' =
           Some (Inl (UnauthorizedError m), d3)))"
  using assms(1)
proof (cases rule: rotateRefresh_cases [where now = now and nj = nj and tok = "Some tok"])
  case (fail e)
  with assms(2) show ?thesis by simp
next
  case (reuse t sub j did s d1)
  with assms(2) show ?thesis by simp
next
  case (rotated t sub j did s)
  let ?link = "\<lambda>s::session. s\<lparr>revoked := True, replacedBy := Some nj\<rparr>"
  from rotated(1) have t: "t = tok" by simp
  have dj: "jwt_decode_jti tok = Some j"
    using jwt_verify_decode [OF rotated(2)] t by simp
  have pair: "pair = \<lparr>accessToken = jwt_sign now (Access sub) ACCESS_TTL,
      refreshToken = jwt_sign now (Refresh sub nj did) REFRESH_TTL_SECONDS\<rparr>"
    using rotated(7) assms(2) by simp
  have dn: "jwt_decode_jti (refreshToken pair) = Some nj"
    unfolding pair by (simp add: jwt_sign_def)
  have fj: "find (\<lambda>s. refreshJti s = j) (sessions d) = Some s"
    using rotated(3) by (simp add: session_findUnique_def)
  then have "j \<in> set (map refreshJti (sessions d))"
    by (auto dest: find_jti)
  with rotated(6) have ne: "nj \<noteq> j" by auto
  have st: "step (RotateRefresh now nj (Some tok)) d = Some d'"
    using assms(2) by simp
  have fwd: "forward (sessions d')"
    using step_change [OF assms(1) st] assms(1) by (rule change_forward)
  have d': "sessions d' = update_row j ?link (sessions d @ [fresh_session now nj sub did])"
    using rotated(7) assms(2) by simp
  have u: "session_findUnique d' j = Some (?link s)"
    unfolding d' session_findUnique_def using fj
    by (simp add: find_update_row_eq find_append_Some)
  have ru: "revoked (?link s)" by simp
  have later: "\<exists>m d3. rotateRefresh now' nj' (Some tok') d'' = Some (Inl (UnauthorizedError m), d3)"
    if "run xs d' = Some d''" "jwt_decode_jti tok' = Some j" for xs d'' now' nj' tok'
  proof -
    from run_revoked [OF fwd that(1) u ru] obtain v where
      v: "session_findUnique d'' j = Some v" "revoked v" by blast
    from run_forward [OF fwd that(1)] have "forward (sessions d'')" .
    from rotateRefresh_revoked_unauthorized [OF this v that(2)] show ?thesis .
  qed
  from dj dn ne later show ?thesis by blast
qed

theorem rotation_retires_old_jti_witness:
  "rotateRefresh 1000 2 (Some ex_R1) ex_login = Some (Inr ex_pair2, ex_rotated) \<and>
   jwt_decode_jti ex_R1 = Some 1 \<and> jwt_decode_jti (refreshToken ex_pair2) = Some 2 \<and>
   (\<exists>m d3. rotateRefresh 2000 3 (Some ex_R1) ex_rotated =
      Some (Inl (UnauthorizedError m), d3))"
proof -
  have f: "forward (sessions ex_login)" by (simp add: ex_login_def)
  have r: "run [] ex_rotated = Some ex_rotated" by simp
  have j: "jwt_decode_jti ex_R1 = Some 1" by (simp add: ex_R1_def)
  from rotation_retires_old_jti [OF f ex_rotate] j
  have "jwt_decode_jti (refreshToken ex_pair2) = Some 2 \<and>
     (\<forall>xs d'' now' nj' tok'. run xs ex_rotated = Some d'' \<longrightarrow> jwt_decode_jti tok' = Some 1 \<longrightarrow>
        (\<exists>m d3. rotateRefresh now' nj' (Some tok') d'' =
           Some (Inl (UnauthorizedError m), d3)))"
    by auto
  with r j ex_rotate show ?thesis by blast
qed

text \<open>
  Claim C6. In every state reached from an empty Session table by a sequence of
  \<open>issueTokens\<close>, \<open>rotateRefresh\<close>, \<open>logout\<close>, \<open>logoutAllDevices\<close> and \<open>revokeFamily\<close>
  calls, each run to its end before the next starts: a row that is not revoked has no
  successor; every operation returns; and an operation changes the \<^verbatim>\<open>replacedBy\<close> of a row
  only if it is a rotation, the row had no successor and was not revoked, and the row is
  revoked afterwards. So logout, logout-all and the cascade never set a successor, a
  successor once set stays, and \<^verbatim>\<open>revoked\<close> is never reset.
\<close>

theorem successor_set_once:
  assumes "sessions d0 = []" and "run xs d0 = Some d"
  shows "(\<forall>s \<in> set (sessions d). \<not> revoked s \<longrightarrow> replacedBy s = None) \<and>
     (\<forall>x. \<exists>d'. step x d = Some d') \<and>
     (\<forall>x d' j s. step x d = Some d' \<longrightarrow> session_findUnique d j = Some s \<longrightarrow>
        (\<exists>t. session_findUnique d' j = Some t \<and> (revoked s \<longrightarrow> revoked t) \<and>
           (replacedBy t \<noteq> replacedBy s \<longrightarrow>
              is_rotate x \<and> replacedBy s = None \<and> \<not> revoked s \<and> revoked t)))"
proof -
  have "forward (sessions d0)" "unlinked (sessions d0)"
    using assms(1) by (simp_all add: unlinked_def)
  from run_invariants [OF this assms(2)]
  have fwd: "forward (sessions d)" and unl: "unlinked (sessions d)" by simp_all
  have 1: "\<forall>s \<in> set (sessions d). \<not> revoked s \<longrightarrow> replacedBy s = None"
    using unl by (simp add: unlinked_def)
  have 2: "\<forall>x. \<exists>d'. step x d = Some d'"
    using step_total [OF fwd] by blast
  have 3: "\<exists>t. session_findUnique d' j = Some t \<and> (revoked s \<longrightarrow> revoked t) \<and>
           (replacedBy t \<noteq> replacedBy s \<longrightarrow>
              is_rotate x \<and> replacedBy s = None \<and> \<not> revoked s \<and> revoked t)"
    if st: "step x d = Some d'" and f: "session_findUnique d j = Some s" for x d' j s
  proof -
    from f have fj: "find (\<lambda>s. refreshJti s = j) (sessions d) = Some s"
      by (simp add: session_findUnique_def)
    from change_node [OF step_change [OF fwd st] fj] obtain t where
      t: "session_findUnique d' j = Some t" "node_step (is_rotate x) s t"
      by (auto simp: session_findUnique_def)
    from fj have "s \<in> set (sessions d)" by (auto dest: find_jti)
    with 1 have "\<not> revoked s \<longrightarrow> replacedBy s = None" by blast
    with t show ?thesis unfolding node_step_def by blast
  qed
  from 1 2 3 show ?thesis by blast
qed

theorem successor_set_once_witness:
  "run [IssueTokens 0 1 ''alice'' ''d1'', RotateRefresh 1000 2 (Some ex_R1)] ex_empty
     = Some ex_rotated \<and>
   (\<exists>d'. step (Logout 2000 (Some ex_R1)) ex_rotated = Some d' \<and>
      (\<exists>t. session_findUnique d' 1 = Some t \<and> revoked t \<and> replacedBy t = Some 2))"
proof -
  have e: "sessions ex_empty = []" by (simp add: ex_empty_def)
  have s: "session_findUnique ex_rotated 1 = Some \<lparr>userId = ''alice'', deviceId = ''d1'',
      refreshJti = 1, revoked = True, replacedBy = Some 2, expiresAt = 2592000000\<rparr>"
    by (simp add: session_findUnique_def ex_rotated_def)
  note t = successor_set_once [OF e ex_run, THEN conjunct2]
  from t [THEN conjunct1] obtain d' where d': "step (Logout 2000 (Some ex_R1)) ex_rotated = Some d'"
    by blast
  from t [THEN conjunct2, rule_format, OF d' s] obtain t where
    "session_findUnique d' 1 = Some t" "revoked t" "replacedBy t = Some 2"
    by auto
  with d' ex_run show ?thesis by blast
qed

text \<open>
  Claim C2, as the code has it. The code has no \<^verbatim>\<open>AlreadyRotated\<close> failure: the update that
  retires the old row fails only when no row has the jti (a data-layer error); on an
  existing row it always succeeds, sets \<^verbatim>\<open>revoked\<close> and sets \<^verbatim>\<open>replacedBy\<close> to the new jti,
  whatever successor the row had, and touches no other row. A \<open>rotateRefresh\<close> call that
  runs alone, on a table whose non-revoked rows have no successor, reaches the update only
  for a row that is not revoked and has no successor. The counterexample applies the
  update to a row whose successor is already set: it succeeds and overwrites the successor.
\<close>

theorem rotation_update_unconditional:
  "(session_findUnique d j = None \<longrightarrow> rotateRefresh_update d j toks = Inl PrismaError) \<and>
   (\<forall>s. session_findUnique d j = Some s \<longrightarrow>
      (\<exists>d'. rotateRefresh_update d j toks = Inr d' \<and>
         session_findUnique d' j =
           Some (s\<lparr>revoked := True, replacedBy := jwt_decode_jti (refreshToken toks)\<rparr>) \<and>
         (\<forall>k. k \<noteq> j \<longrightarrow> session_findUnique d' k = session_findUnique d k))) \<and>
   (\<forall>now nj tok pair d'. unlinked (sessions d) \<longrightarrow>
      rotateRefresh now nj tok d = Some (Inr pair, d') \<longrightarrow>
      (\<exists>t j s. tok = Some t \<and> jwt_decode_jti t = Some j \<and> session_findUnique d j = Some s \<and>
         \<not> revoked s \<and> replacedBy s = None \<and>
         session_findUnique d' j = Some (s\<lparr>revoked := True, replacedBy := Some nj\<rparr>)))"
proof (intro conjI allI impI)
  assume "session_findUnique d j = None"
  then show "rotateRefresh_update d j toks = Inl PrismaError"
    by (simp add: rotateRefresh_update_def session_update_def)
next
  fix s assume s: "session_findUnique d j = Some s"
  let ?f = "\<lambda>s::session. s\<lparr>revoked := True, replacedBy := jwt_decode_jti (refreshToken toks)\<rparr>"
  let ?d = "d\<lparr>sessions := update_row j ?f (sessions d)\<rparr>"
  have 1: "rotateRefresh_update d j toks = Inr ?d"
    using s by (simp add: rotateRefresh_update_def session_update_def)
  have 2: "session_findUnique ?d j = Some (?f s)"
    using s by (simp add: session_findUnique_def find_update_row_eq)
  have 3: "\<forall>k. k \<noteq> j \<longrightarrow> session_findUnique ?d k = session_findUnique d k"
    by (simp add: session_findUnique_def find_update_row_eq)
  from 1 2 3 show "\<exists>d'. rotateRefresh_update d j toks = Inr d' \<and>
         session_findUnique d' j = Some (?f s) \<and>
         (\<forall>k. k \<noteq> j \<longrightarrow> session_findUnique d' k = session_findUnique d k)"
    by blast
next
  fix now nj tok pair d'
  assume u: "unlinked (sessions d)" and r: "rotateRefresh now nj tok d = Some (Inr pair, d')"
  from rotateRefresh_Inr [OF r] obtain t sub j did s where
    t: "tok = Some t" and v: "jwt_verify now t = Some (Refresh sub j did)" and
    f: "session_findUnique d j = Some s" and nr: "\<not> revoked s" and
    d': "d' = d\<lparr>sessions := update_row j (\<lambda>s. s\<lparr>revoked := True, replacedBy := Some nj\<rparr>)
                  (sessions d @ [fresh_session now nj sub did])\<rparr>"
    by blast
  from f have fj: "find (\<lambda>s. refreshJti s = j) (sessions d) = Some s"
    by (simp add: session_findUnique_def)
  then have "s \<in> set (sessions d)" by (auto dest: find_jti)
  with u nr have n: "replacedBy s = None" by (auto simp: unlinked_def)
  have dj: "jwt_decode_jti t = Some j" using jwt_verify_decode [OF v] by simp
  have "session_findUnique d' j = Some (s\<lparr>revoked := True, replacedBy := Some nj\<rparr>)"
    unfolding d' session_findUnique_def using fj
    by (simp add: find_update_row_eq find_append_Some)
  with t dj f nr n show "\<exists>t j s. tok = Some t \<and> jwt_decode_jti t = Some j \<and>
      session_findUnique d j = Some s \<and> \<not> revoked s \<and> replacedBy s = None \<and>
      session_findUnique d' j = Some (s\<lparr>revoked := True, replacedBy := Some nj\<rparr>)"
    by blast
qed

theorem rotation_update_unconditional_witness:
  "\<exists>d'. rotateRefresh_update ex_mid 1 ex_pair3 = Inr d' \<and>
      session_findUnique d' 1 =
        Some \<lparr>userId = ''alice'', deviceId = ''d1'', refreshJti = 1, revoked = True,
          replacedBy = Some 3, expiresAt = 2592000000\<rparr> \<and>
      session_findUnique d' 2 = session_findUnique ex_mid 2 \<and>
      session_findUnique ex_rotated 1 =
        Some (\<lparr>userId = ''alice'', deviceId = ''d1'', refreshJti = 1, revoked = False,
          replacedBy = None, expiresAt = 2592000000\<rparr>\<lparr>revoked := True, replacedBy := Some 2\<rparr>)"
proof -
  have s: "session_findUnique ex_mid 1 = Some \<lparr>userId = ''alice'', deviceId = ''d1'',
      refreshJti = 1, revoked = True, replacedBy = Some 2, expiresAt = 2592000000\<rparr>"
    by (simp add: session_findUnique_def ex_mid_def)
  note t = rotation_update_unconditional [of ex_mid 1 ex_pair3, THEN conjunct2]
  from t [THEN conjunct1, rule_format, OF s] obtain d' where
    d': "rotateRefresh_update ex_mid 1 ex_pair3 = Inr d'"
    "session_findUnique d' 1 = Some \<lparr>userId = ''alice'', deviceId = ''d1'', refreshJti = 1,
       revoked = True, replacedBy = Some 3, expiresAt = 2592000000\<rparr>"
    "session_findUnique d' 2 = session_findUnique ex_mid 2"
    by (auto simp: ex_pair3_def)
  have u: "unlinked (sessions ex_login)" by (simp add: unlinked_def ex_login_def)
  have l: "session_findUnique ex_login 1 = Some \<lparr>userId = ''alice'', deviceId = ''d1'',
      refreshJti = 1, revoked = False, replacedBy = None, expiresAt = 2592000000\<rparr>"
    by (simp add: session_findUnique_def ex_login_def)
  from rotation_update_unconditional [of ex_login 1 ex_pair3, THEN conjunct2, THEN conjunct2,
      rule_format, OF u ex_rotate]
  have "session_findUnique ex_rotated 1 =
        Some (\<lparr>userId = ''alice'', deviceId = ''d1'', refreshJti = 1, revoked = False,
          replacedBy = None, expiresAt = 2592000000\<rparr>\<lparr>revoked := True, replacedBy := Some 2\<rparr>)"
    using l by (auto simp: ex_R1_def)
  with d' show ?thesis by blast
qed

theorem rotation_update_counterexample:
  "session_findUnique ex_mid 1 =
     Some \<lparr>userId = ''alice'', deviceId = ''d1'', refreshJti = 1, revoked = True,
          replacedBy = Some 2, expiresAt = 2592000000\<rparr> \<and>
   rotateRefresh_update ex_mid 1 ex_pair3 = Inr ex_raced \<and>
   session_findUnique ex_raced 1 =
     Some \<lparr>userId = ''alice'', deviceId = ''d1'', refreshJti = 1, revoked = True,
          replacedBy = Some 3, expiresAt = 2592000000\<rparr>"
  by (simp add: rotateRefresh_update_def session_update_def session_findUnique_def
      ex_mid_def ex_raced_def ex_pair3_def)

text \<open>
  Claim C3, as the code has it. When two \<open>rotateRefresh\<close> calls present the same token and
  the second starts after the first has returned (the token still verifying), the first
  receives a fresh pair and the second fails with an unauthorized error; the second creates
  no row and sets no successor, and the session issued to the first is revoked by the
  cascade. The counterexample is the schedule in which both calls read the session row
  before either writes: both receive a fresh pair, the row of jti 1 is linked first to 2
  and then to 3, and neither new session is revoked.
\<close>

theorem serial_double_rotation:
  assumes "forward (sessions d)"
    and "rotateRefresh now nj (Some tok) d = Some (Inr pair, d1)"
    and "jwt_verify now' tok \<noteq> None"
  shows "\<exists>d2. rotateRefresh now' nj' (Some tok) d1 =
            Some (Inl (UnauthorizedError ''Token has been revoked''), d2) \<and>
     map refreshJti (sessions d2) = map refreshJti (sessions d1) \<and>
     map replacedBy (sessions d2) = map replacedBy (sessions d1) \<and>
     jwt_decode_jti (refreshToken pair) = Some nj \<and>
     (\<exists>t. session_findUnique d1 nj = Some t \<and> \<not> revoked t) \<and>
     (\<exists>t. session_findUnique d2 nj = Some t \<and> revoked t)"
proof -
  let ?link = "\<lambda>s::session. s\<lparr>revoked := True, replacedBy := Some nj\<rparr>"
  from rotateRefresh_Inr [OF assms(2)] obtain sub j did s where
    v: "jwt_verify now tok = Some (Refresh sub j did)" and
    f: "session_findUnique d j = Some s" and
    fresh: "nj \<notin> set (map refreshJti (sessions d))" and
    pair: "pair = \<lparr>accessToken = jwt_sign now (Access sub) ACCESS_TTL,
             refreshToken = jwt_sign now (Refresh sub nj did) REFRESH_TTL_SECONDS\<rparr>" and
    d1: "d1 = d\<lparr>sessions := update_row j ?link (sessions d @ [fresh_session now nj sub did])\<rparr>"
    by auto
  from assms(3) v have v': "jwt_verify now' tok = Some (Refresh sub j did)"
    by (auto dest: jwt_verify_same)
  have fj: "find (\<lambda>s. refreshJti s = j) (sessions d) = Some s"
    using f by (simp add: session_findUnique_def)
  then have "j \<in> set (map refreshJti (sessions d))" by (auto dest: find_jti)
  with fresh have ne: "nj \<noteq> j" by auto
  have fn: "find (\<lambda>s. refreshJti s = nj) (sessions d) = None"
    using fresh by (simp add: find_None_jti)
  have st: "step (RotateRefresh now nj (Some tok)) d = Some d1"
    using assms(2) by simp
  have fwd: "forward (sessions d1)"
    using step_change [OF assms(1) st] assms(1) by (rule change_forward)
  have old: "find (\<lambda>s. refreshJti s = j) (sessions d1) = Some (?link s)"
    unfolding d1 using fj by (simp add: find_update_row_eq find_append_Some)
  have new: "find (\<lambda>s. refreshJti s = nj) (sessions d1) = Some (fresh_session now nj sub did)"
    unfolding d1 using ne fn
    by (simp add: find_update_row_eq find_append_None fresh_session_def)
  have rch: "reach (sessions d1) j nj"
    by (rule reach_next [OF old _ reach_here [OF new]]) simp
  from rotateRefresh_revoked [OF fwd v' old [folded session_findUnique_def], of nj'] obtain d2 where
    r: "rotateRefresh now' nj' (Some tok) d1 =
          Some (Inl (UnauthorizedError ''Token has been revoked''), d2)" and
    rel: "list_all2 revoked_only (sessions d1) (sessions d2)" and
    rv: "\<And>k. reach (sessions d1) j k \<Longrightarrow> \<exists>t. session_findUnique d2 k = Some t \<and> revoked t"
    by auto
  have a: "jwt_decode_jti (refreshToken pair) = Some nj"
    unfolding pair by (simp add: jwt_sign_def)
  have b: "\<exists>t. session_findUnique d1 nj = Some t \<and> \<not> revoked t"
    using new by (simp add: session_findUnique_def fresh_session_def)
  from r revoked_only_maps [OF rel] rv [OF rch] a b show ?thesis by blast
qed

theorem serial_double_rotation_witness:
  "\<exists>d2. rotateRefresh 1000 3 (Some ex_R1) ex_rotated =
            Some (Inl (UnauthorizedError ''Token has been revoked''), d2) \<and>
     map refreshJti (sessions d2) = map refreshJti (sessions ex_rotated) \<and>
     map replacedBy (sessions d2) = map replacedBy (sessions ex_rotated) \<and>
     (\<exists>t. session_findUnique d2 2 = Some t \<and> revoked t)"
proof -
  have f: "forward (sessions ex_login)" by (simp add: ex_login_def)
  have v: "jwt_verify 1000 ex_R1 \<noteq> None" by (simp add: ex_R1_def)
  from serial_double_rotation [OF f ex_rotate v, of 3] show ?thesis by blast
qed

theorem concurrent_rotation_counterexample:
  "rotateRefresh_lookup 1000 (Some ex_R1) ex_login = Inr ex_read \<and>
   rotateRefresh_commit 1000 2 ex_read ex_login = Some (Inr ex_pair2, ex_rotated) \<and>
   rotateRefresh_commit 1000 3 ex_read ex_rotated = Some (Inr ex_pair3, ex_raced)"
  by (simp add: rotateRefresh_lookup_def rotateRefresh_commit_def
      rotateRefresh_update_def session_update_def session_findUnique_def
      issueTokens_def session_create_def ex_login_def ex_rotated_def ex_raced_def ex_users_def
      ex_R1_def ex_pair2_def ex_pair3_def ex_read_def jwt_sign_def ACCESS_TTL_def
      REFRESH_TTL_SECONDS_def)




text \<open>
  Claim C10. Every user object returned by \<open>register\<close>, \<open>login\<close>, \<open>verify2FA\<close> and
  \<open>getUserById\<close> has no \<^verbatim>\<open>passwordHash\<close> and no \<^verbatim>\<open>totpSecret\<close> property, whatever the
  stored rows are.
\<close>

theorem returned_user_is_sanitized:
  "(register toLowerCase hash now newId mail password name years d = (Inr r1, d1) \<longrightarrow>
      ''passwordHash'' \<notin> set (map fst r1) \<and> ''totpSecret'' \<notin> set (map fst r1)) \<and>
   (login toLowerCase compare now j mail password did plat ua d =
        (Inr (LoggedIn r2 toks2), d2) \<longrightarrow>
      ''passwordHash'' \<notin> set (map fst r2) \<and> ''totpSecret'' \<notin> set (map fst r2)) \<and>
   (verify2FA check now j tempToken code did d = (Inr (r3, toks3), d3) \<longrightarrow>
      ''passwordHash'' \<notin> set (map fst r3) \<and> ''totpSecret'' \<notin> set (map fst r3)) \<and>
   (getUserById uid d = Inr r4 \<longrightarrow>
      ''passwordHash'' \<notin> set (map fst r4) \<and> ''totpSecret'' \<notin> set (map fst r4))"
proof (intro conjI impI)
  assume "register toLowerCase hash now newId mail password name years d = (Inr r1, d1)"
  then obtain u where "r1 = sanitizeUser (user_object u)" by (auto dest: register_Inr)
  with sanitizeUser_keys [of "user_object u"]
  show "''passwordHash'' \<notin> set (map fst r1)" "''totpSecret'' \<notin> set (map fst r1)" by simp_all
next
  assume "login toLowerCase compare now j mail password did plat ua d =
      (Inr (LoggedIn r2 toks2), d2)"
  then obtain u where "r2 = sanitizeUser (user_object u)" by (auto dest: login_Inr)
  with sanitizeUser_keys [of "user_object u"]
  show "''passwordHash'' \<notin> set (map fst r2)" "''totpSecret'' \<notin> set (map fst r2)" by simp_all
next
  assume "verify2FA check now j tempToken code did d = (Inr (r3, toks3), d3)"
  then obtain u where "r3 = sanitizeUser (user_object u)" by (auto dest: verify2FA_Inr)
  with sanitizeUser_keys [of "user_object u"]
  show "''passwordHash'' \<notin> set (map fst r3)" "''totpSecret'' \<notin> set (map fst r3)" by simp_all
next
  assume "getUserById uid d = Inr r4"
  then obtain x where "r4 = sanitizeUser x" by (auto dest: getUserById_Inr)
  with sanitizeUser_keys [of x]
  show "''passwordHash'' \<notin> set (map fst r4)" "''totpSecret'' \<notin> set (map fst r4)" by simp_all
qed

theorem returned_user_is_sanitized_witness:
  "\<exists>r toks d'. login ex_toLowerCase ex_compare 0 7 ''alice@example.com'' ''password123'' ''d1''
       ''ios'' ''agent'' ex_empty = (Inr (LoggedIn r toks), d') \<and>
     ''passwordHash'' \<notin> set (map fst r) \<and> ''totpSecret'' \<notin> set (map fst r) \<and>
     ''email'' \<in> set (map fst r)"
proof -
  have "\<exists>r toks d'. login ex_toLowerCase ex_compare 0 7 ''alice@example.com'' ''password123''
      ''d1'' ''ios'' ''agent'' ex_empty = (Inr (LoggedIn r toks), d') \<and>
      ''email'' \<in> set (map fst r)"
    by (simp add: login_def user_findUnique_email_def ex_toLowerCase_def ex_empty_def
        ex_users_def ex_compare_def device_upsert_def truthy_def issueTokens_def
        session_create_def sanitizeUser_def user_object_def)
  then obtain r toks d' where
    l: "login ex_toLowerCase ex_compare 0 7 ''alice@example.com'' ''password123'' ''d1'' ''ios''
      ''agent'' ex_empty = (Inr (LoggedIn r toks), d')" and e: "''email'' \<in> set (map fst r)"
    by blast
  from returned_user_is_sanitized [THEN conjunct2, THEN conjunct1, rule_format, OF l] l e
  show ?thesis by blast
qed

end
